theory Spec2Isabelle
  imports Main "HOL-Library.Word" "HOL-Library.AList"
begin

section \<open>The handoff queue of \<^verbatim>\<open>queue.c\<close>\<close>

subsection \<open>Data model\<close>

text \<open>
  A Kafka message is an opaque record of the client library; the code reads one field
  of it, \<^verbatim>\<open>err\<close>, where 0 is \<^verbatim>\<open>RD_KAFKA_RESP_ERR_NO_ERROR\<close>.
\<close>

record rd_kafka_message_t =
  err :: int
  payload :: string

text \<open>Addresses of \<^verbatim>\<open>MessageNode\<close> objects; address 0 is the null pointer.\<close>

type_synonym node_ptr = nat

abbreviation NULL :: nat where
  "NULL \<equiv> 0"

text \<open>\<^verbatim>\<open>struct MessageNode\<close>. The field \<^verbatim>\<open>next\<close> is called \<open>next_node\<close> here.\<close>

record MessageNode =
  message :: rd_kafka_message_t
  next_node :: node_ptr

text \<open>
  \<^verbatim>\<open>MessageQueue\<close>: \<^verbatim>\<open>head\<close>, \<^verbatim>\<open>tail\<close> and the \<^verbatim>\<open>int size\<close>, a 32-bit
  two's complement counter on which \<^verbatim>\<open>++\<close> and \<^verbatim>\<open>--\<close> wrap around. The lock and the
  condition variable have no content of their own: the calls on them are recorded in the
  trace of the world.
\<close>

record MessageQueue =
  head :: node_ptr
  tail :: node_ptr
  size_q :: "32 word"

text \<open>
  Calls into pthreads, librdkafka and the Python runtime, in the order they happen.
  \<open>Rd_kafka_new\<close> carries the configuration and the handle that the call returned,
  \<open>Pthread_create\<close> the thread identifier that the call stored.
\<close>

datatype event =
    Pthread_mutex_init
  | Pthread_cond_init
  | Pthread_mutex_lock
  | Pthread_mutex_unlock
  | Pthread_cond_signal
  | Pthread_cond_wait
  | Pthread_mutex_destroy
  | Pthread_cond_destroy
  | Rd_kafka_message_destroy rd_kafka_message_t
  | Rd_kafka_conf_new
  | Rd_kafka_conf_set string string
  | Rd_kafka_new "(string \<times> string) list" nat
  | Rd_kafka_consumer_poll nat int
  | Rd_kafka_consumer_close nat
  | Rd_kafka_destroy nat
  | PyArg_ParseTuple_error
  | PyErr_SetString string string
  | Pthread_create nat
  | Pthread_join nat
  | Store_run_poller "32 word"
  | Tp_free

text \<open>
  The world outside the objects: the allocated \<^verbatim>\<open>MessageNode\<close>s by address, and the
  trace of calls made so far.
\<close>

record world =
  nodes :: "(node_ptr \<times> MessageNode) list"
  trace :: "event list"

definition log :: "event \<Rightarrow> world \<Rightarrow> world" where
  "log e w = w\<lparr>trace := trace w @ [e]\<rparr>"

text \<open>
  \<^verbatim>\<open>malloc(sizeof(MessageNode))\<close> hands out an address that is not null and not
  allocated now (one above the largest allocated address, so a freed address can come
  back). The source does not test the result, and the model has no failing allocation.
\<close>

definition malloc :: "world \<Rightarrow> node_ptr" where
  "malloc w = Suc (fold max (map fst (nodes w)) 0)"

definition store :: "node_ptr \<Rightarrow> MessageNode \<Rightarrow> world \<Rightarrow> world" where
  "store p n w = w\<lparr>nodes := AList.update p n (nodes w)\<rparr>"

definition free :: "node_ptr \<Rightarrow> world \<Rightarrow> world" where
  "free p w = w\<lparr>nodes := AList.delete p (nodes w)\<rparr>"

text \<open>
  What stops a call from returning: it waits on the condition variable with nobody left
  to signal it (\<open>Blocked\<close>), or it reads or writes through a pointer that is null or not
  allocated (\<open>InvalidAccess\<close>), or it hands a library a thread identifier that names no
  joinable thread (\<open>InvalidThread\<close>) or a client handle that is not live
  (\<open>InvalidHandle\<close>).
\<close>

datatype fault = Blocked | InvalidAccess node_ptr | InvalidThread nat | InvalidHandle nat

subsection \<open>Operations\<close>

definition message_queue_init :: "MessageQueue \<Rightarrow> world \<Rightarrow> MessageQueue \<times> world" where
  "message_queue_init queue w =
     (queue\<lparr>head := NULL, tail := NULL, size_q := 0\<rparr>,
      log Pthread_cond_init (log Pthread_mutex_init w))"

definition message_queue_push ::
  "MessageQueue \<Rightarrow> rd_kafka_message_t \<Rightarrow> world \<Rightarrow> (fault \<times> world) + (MessageQueue \<times> world)" where
  "message_queue_push queue msg w =
     (let new_node = malloc w;
          w1 = store new_node \<lparr>message = msg, next_node = NULL\<rparr> w;
          w2 = log Pthread_mutex_lock w1
      in if tail queue \<noteq> NULL then
           (case map_of (nodes w2) (tail queue) of
              None \<Rightarrow> Inl (InvalidAccess (tail queue), w2)
            | Some t \<Rightarrow>
                let w3 = store (tail queue) (t\<lparr>next_node := new_node\<rparr>) w2;
                    queue1 = queue\<lparr>tail := new_node\<rparr>;
                    queue2 = queue1\<lparr>size_q := size_q queue1 + 1\<rparr>
                in Inr (queue2, log Pthread_mutex_unlock (log Pthread_cond_signal w3)))
         else
           (let queue1 = queue\<lparr>head := new_node\<rparr>;
                queue2 = queue1\<lparr>tail := new_node\<rparr>;
                queue3 = queue2\<lparr>size_q := size_q queue2 + 1\<rparr>
            in Inr (queue3, log Pthread_mutex_unlock (log Pthread_cond_signal w2))))"

text \<open>
  \<^verbatim>\<open>message_queue_pop\<close>. With the queue empty the caller waits on the condition variable;
  in a run where no other activity pushes, the wait never ends: \<open>Blocked\<close>.
\<close>

definition message_queue_pop ::
  "MessageQueue \<Rightarrow> world \<Rightarrow> (fault \<times> world) + (rd_kafka_message_t \<times> MessageQueue \<times> world)" where
  "message_queue_pop queue w =
     (let w1 = log Pthread_mutex_lock w
      in if head queue = NULL then Inl (Blocked, log Pthread_cond_wait w1)
         else
           (case map_of (nodes w1) (head queue) of
              None \<Rightarrow> Inl (InvalidAccess (head queue), w1)
            | Some node \<Rightarrow>
                let msg = message node;
                    queue1 = queue\<lparr>head := next_node node\<rparr>;
                    queue2 = (if head queue1 = NULL then queue1\<lparr>tail := NULL\<rparr> else queue1);
                    queue3 = queue2\<lparr>size_q := size_q queue2 - 1\<rparr>;
                    w2 = free (head queue) w1
                in Inr (msg, queue3, log Pthread_mutex_unlock w2)))"

text \<open>
  The loop of \<^verbatim>\<open>message_queue_destroy\<close>: each round reads the node at \<^verbatim>\<open>head\<close>,
  moves \<^verbatim>\<open>head\<close> on, destroys the message and frees the node. Every round takes one
  allocated node away, which bounds the loop.
\<close>

function destroy_loop :: "MessageQueue \<Rightarrow> world \<Rightarrow> (fault \<times> world) + (MessageQueue \<times> world)" where
  "destroy_loop queue w =
     (if head queue \<noteq> NULL then
        (case map_of (nodes w) (head queue) of
           None \<Rightarrow> Inl (InvalidAccess (head queue), w)
         | Some node \<Rightarrow>
             destroy_loop (queue\<lparr>head := next_node node\<rparr>)
               (free (head queue) (log (Rd_kafka_message_destroy (message node)) w)))
      else Inr (queue, w))"
  by pat_completeness auto

lemma length_delete_less:
  "map_of al k = Some v \<Longrightarrow> length (AList.delete k al) < length al"
  by (induction al) (auto simp: less_Suc_eq_le AList.length_delete_le split: if_splits)

termination destroy_loop
  by (relation "measure (\<lambda>(queue, w). length (nodes w))")
     (auto simp: free_def log_def length_delete_less)

declare destroy_loop.simps [simp del]

definition message_queue_destroy ::
  "MessageQueue \<Rightarrow> world \<Rightarrow> (fault \<times> world) + (MessageQueue \<times> world)" where
  "message_queue_destroy queue w =
     (case destroy_loop queue (log Pthread_mutex_lock w) of
        Inl f \<Rightarrow> Inl f
      | Inr (queue1, w1) \<Rightarrow>
          Inr (queue1,
               log Pthread_cond_destroy
                 (log Pthread_mutex_destroy (log Pthread_mutex_unlock w1))))"

subsection \<open>Runs of the queue\<close>

text \<open>
  A run is a list of calls made one after the other on one queue; \<open>run_ops\<close> returns
  the messages that the pops of the run returned, in order, and stops at the first call
  that does not return.
\<close>

datatype queue_op = Push rd_kafka_message_t | Pop

fun run_ops ::
  "queue_op list \<Rightarrow> MessageQueue \<Rightarrow> world \<Rightarrow>
   (fault \<times> world) + (rd_kafka_message_t list \<times> MessageQueue \<times> world)" where
  "run_ops [] q w = Inr ([], q, w)"
| "run_ops (Push m # ops) q w =
     (case message_queue_push q m w of
        Inl f \<Rightarrow> Inl f
      | Inr (q', w') \<Rightarrow> run_ops ops q' w')"
| "run_ops (Pop # ops) q w =
     (case message_queue_pop q w of
        Inl f \<Rightarrow> Inl f
      | Inr (m, q', w') \<Rightarrow>
          (case run_ops ops q' w' of
             Inl f \<Rightarrow> Inl f
           | Inr (ms, q'', w'') \<Rightarrow> Inr (m # ms, q'', w'')))"

fun pushed :: "queue_op list \<Rightarrow> rd_kafka_message_t list" where
  "pushed [] = []"
| "pushed (Push m # ops) = m # pushed ops"
| "pushed (Pop # ops) = pushed ops"

subsection \<open>The list a queue holds\<close>

text \<open>
  \<open>chain h p xs\<close>: following \<^verbatim>\<open>next\<close> from \<open>p\<close> in the heap \<open>h\<close> visits the nodes at the
  addresses \<open>map fst xs\<close>, which carry the messages \<open>map snd xs\<close>, and then reaches the
  null pointer. \<open>qrep q w xs\<close>: the queue \<open>q\<close> holds exactly that list.
\<close>

fun chain :: "(node_ptr \<rightharpoonup> MessageNode) \<Rightarrow> node_ptr \<Rightarrow> (node_ptr \<times> rd_kafka_message_t) list \<Rightarrow> bool" where
  "chain h p [] = (p = NULL)"
| "chain h p (x # xs) =
     (p = fst x \<and> p \<noteq> NULL \<and>
      (case h p of None \<Rightarrow> False | Some n \<Rightarrow> message n = snd x \<and> chain h (next_node n) xs))"

definition qrep :: "MessageQueue \<Rightarrow> world \<Rightarrow> (node_ptr \<times> rd_kafka_message_t) list \<Rightarrow> bool" where
  "qrep q w xs =
     (chain (map_of (nodes w)) (head q) xs \<and> distinct (map fst xs) \<and>
      tail q = (if xs = [] then NULL else fst (last xs)) \<and>
      size_q q = of_nat (length xs))"

subsection \<open>The invariant of the queue\<close>

text \<open>
  \<open>traversal h n p\<close> walks from \<open>p\<close> along \<^verbatim>\<open>next\<close>: it returns the \<open>n\<close> nodes it visits
  (address and message) when the walk meets exactly \<open>n\<close> allocated nodes and then the null
  pointer, and \<open>None\<close> otherwise. \<open>queue_invariant\<close> is the invariant of the data model:
  \<^verbatim>\<open>head\<close> is null iff \<^verbatim>\<open>tail\<close> is null iff \<^verbatim>\<open>size\<close> is 0, and the walk from \<^verbatim>\<open>head\<close>
  visits \<^verbatim>\<open>size\<close> nodes, the last of which is \<^verbatim>\<open>tail\<close>.
\<close>

fun traversal ::
  "(node_ptr \<times> MessageNode) list \<Rightarrow> nat \<Rightarrow> node_ptr \<Rightarrow> (node_ptr \<times> rd_kafka_message_t) list option" where
  "traversal h 0 p = (if p = NULL then Some [] else None)"
| "traversal h (Suc n) p =
     (if p = NULL then None
      else (case map_of h p of
              None \<Rightarrow> None
            | Some node \<Rightarrow> map_option ((#) (p, message node)) (traversal h n (next_node node))))"

definition queue_invariant :: "MessageQueue \<Rightarrow> world \<Rightarrow> bool" where
  "queue_invariant q w =
     (((head q = NULL) = (tail q = NULL)) \<and> ((tail q = NULL) = (size_q q = 0)) \<and>
      (case traversal (nodes w) (nat (sint (size_q q))) (head q) of
         None \<Rightarrow> False
       | Some xs \<Rightarrow> xs = [] \<or> fst (last xs) = tail q))"

section \<open>The consumer object of \<^verbatim>\<open>consumer.c\<close>\<close>

subsection \<open>The collaborators\<close>

text \<open>
  The Python arguments handed to the constructor, and the result codes of
  \<^verbatim>\<open>rd_kafka_conf_set\<close>.
\<close>

datatype py_object = PyUnicode string | PyLong int | PyNone

datatype rd_kafka_conf_res_t = RD_KAFKA_CONF_UNKNOWN | RD_KAFKA_CONF_INVALID | RD_KAFKA_CONF_OK

type_synonym rd_kafka_conf_t = "(string \<times> string) list"

text \<open>
  What the calls into the Python runtime, librdkafka and pthreads return is not decided
  in this repository, so it is a parameter of the model: \<open>PyArg_ParseTuple\<close> gives the
  two C strings of the format \<^verbatim>\<open>"ss"\<close> or fails; \<open>rd_kafka_conf_set\<close> gives a result code
  and the text it leaves in \<^verbatim>\<open>errstr\<close>; \<open>rd_kafka_new\<close> gives the handle (null on
  failure) and the text it leaves in \<^verbatim>\<open>errstr\<close>; \<open>pthread_create\<close> is the thread
  identifier it stores (its return code is ignored by the source).
\<close>

record library =
  PyArg_ParseTuple :: "py_object list \<Rightarrow> (string \<times> string) option"
  rd_kafka_conf_set :: "string \<Rightarrow> string \<Rightarrow> rd_kafka_conf_res_t \<times> string"
  rd_kafka_new :: "rd_kafka_conf_t \<Rightarrow> nat \<times> string"
  pthread_create :: nat

subsection \<open>The object and the poller\<close>

text \<open>\<^verbatim>\<open>ConsumerObject\<close>; \<^verbatim>\<open>run_poller\<close> is an \<^verbatim>\<open>int\<close>.\<close>

record ConsumerObject =
  rk :: nat
  poller_thread :: nat
  run_poller :: "32 word"
  message_queue :: MessageQueue

text \<open>
  The body of the loop of \<^verbatim>\<open>poller_thread_func\<close>, given what
  \<^verbatim>\<open>rd_kafka_consumer_poll(self->rk, 1000)\<close> returned: \<open>None\<close> is the null pointer of a
  poll that timed out.
\<close>

definition poller_iteration ::
  "rd_kafka_message_t option \<Rightarrow> ConsumerObject \<Rightarrow> world \<Rightarrow> (fault \<times> world) + (ConsumerObject \<times> world)" where
  "poller_iteration polled self w =
     (let w1 = log (Rd_kafka_consumer_poll (rk self) 1000) w
      in case polled of
           None \<Rightarrow> Inr (self, w1)
         | Some msg \<Rightarrow>
             if err msg \<noteq> 0 then Inr (self, log (Rd_kafka_message_destroy msg) w1)
             else (case message_queue_push (message_queue self) msg w1 of
                     Inl f \<Rightarrow> Inl f
                   | Inr (queue, w2) \<Rightarrow> Inr (self\<lparr>message_queue := queue\<rparr>, w2)))"

text \<open>
  \<^verbatim>\<open>poller_thread_func\<close>. The loop has no bound of its own: it runs as long as it reads
  a non-zero \<^verbatim>\<open>run_poller\<close>. The model is driven by what the polls of the run return,
  each with a flag that tells whether the teardown cleared \<^verbatim>\<open>run_poller\<close> while that
  iteration ran. The result \<open>True\<close> says that the function returned; \<open>False\<close> says that
  it is still in the loop, waiting for a poll beyond the given ones.
\<close>

fun poller_thread_func ::
  "(rd_kafka_message_t option \<times> bool) list \<Rightarrow> ConsumerObject \<Rightarrow> world \<Rightarrow>
   (fault \<times> world) + (bool \<times> ConsumerObject \<times> world)" where
  "poller_thread_func [] self w =
     (if run_poller self \<noteq> 0 then Inr (False, self, w) else Inr (True, self, w))"
| "poller_thread_func ((polled, cleared) # rest) self w =
     (if run_poller self \<noteq> 0 then
        (case poller_iteration polled self w of
           Inl f \<Rightarrow> Inl f
         | Inr (self1, w1) \<Rightarrow>
             poller_thread_func rest (if cleared then self1\<lparr>run_poller := 0\<rparr> else self1) w1)
      else Inr (True, self, w))"

subsection \<open>Construction and teardown\<close>

text \<open>
  \<^verbatim>\<open>Consumer_init\<close> returns 0 or -1, the object as it leaves it, and the world. The
  configuration object is the list of the settings made so far.
\<close>

definition Consumer_init ::
  "library \<Rightarrow> ConsumerObject \<Rightarrow> py_object list \<Rightarrow> world \<Rightarrow> int \<times> ConsumerObject \<times> world" where
  "Consumer_init lib self args w =
     (case PyArg_ParseTuple lib args of
        None \<Rightarrow> (- 1, self, log PyArg_ParseTuple_error w)
      | Some (bootstrap_servers, group_id) \<Rightarrow>
          let w1 = log Rd_kafka_conf_new w;
              (res1, errstr1) = rd_kafka_conf_set lib ''bootstrap.servers'' bootstrap_servers;
              w2 = log (Rd_kafka_conf_set ''bootstrap.servers'' bootstrap_servers) w1
          in if res1 \<noteq> RD_KAFKA_CONF_OK
             then (- 1, self, log (PyErr_SetString ''ValueError'' errstr1) w2)
             else
               let (res2, errstr2) = rd_kafka_conf_set lib ''group.id'' group_id;
                   w3 = log (Rd_kafka_conf_set ''group.id'' group_id) w2
               in if res2 \<noteq> RD_KAFKA_CONF_OK
                  then (- 1, self, log (PyErr_SetString ''ValueError'' errstr2) w3)
                  else
                    let (res3, errstr3) = rd_kafka_conf_set lib ''enable.auto.commit'' ''false'';
                        w4 = log (Rd_kafka_conf_set ''enable.auto.commit'' ''false'') w3
                    in if res3 \<noteq> RD_KAFKA_CONF_OK
                       then (- 1, self, log (PyErr_SetString ''ValueError'' errstr3) w4)
                       else
                         let conf = [(''bootstrap.servers'', bootstrap_servers),
                                     (''group.id'', group_id),
                                     (''enable.auto.commit'', ''false'')];
                             (handle, errstr4) = rd_kafka_new lib conf;
                             w5 = log (Rd_kafka_new conf handle) w4;
                             self1 = self\<lparr>rk := handle\<rparr>
                         in if rk self1 = NULL
                            then (- 1, self1, log (PyErr_SetString ''RuntimeError'' errstr4) w5)
                            else
                              let (queue, w6) = message_queue_init (message_queue self1) w5;
                                  self2 = self1\<lparr>message_queue := queue\<rparr>;
                                  self3 = self2\<lparr>run_poller := 1\<rparr>;
                                  w7 = log (Store_run_poller 1) w6;
                                  self4 = self3\<lparr>poller_thread := pthread_create lib\<rparr>;
                                  w8 = log (Pthread_create (pthread_create lib)) w7
                              in (0, self4, w8))"

text \<open>
  The three library calls of the teardown, by their contracts. A thread identifier is
  joinable in a trace when \<^verbatim>\<open>pthread_create\<close> has stored it more often than
  \<^verbatim>\<open>pthread_join\<close> has been called on it; a client handle is live when it is not null
  and \<^verbatim>\<open>rd_kafka_new\<close> has returned it more often than \<^verbatim>\<open>rd_kafka_destroy\<close> has been
  called on it. On a joinable thread \<^verbatim>\<open>pthread_join\<close> returns (in this sequential reading
  the thread is taken to return; the section on the two activities below models the
  wait). On any other identifier its behaviour is undefined, and likewise that of
  \<^verbatim>\<open>rd_kafka_consumer_close\<close> and \<^verbatim>\<open>rd_kafka_destroy\<close> on a handle that is not live: the
  call is made and the run ends there.
\<close>

definition joinable :: "nat \<Rightarrow> event list \<Rightarrow> bool" where
  "joinable t tr = (count_list tr (Pthread_join t) < count_list tr (Pthread_create t))"

fun handles_created :: "nat \<Rightarrow> event list \<Rightarrow> nat" where
  "handles_created h [] = 0"
| "handles_created h (Rd_kafka_new conf h1 # es) =
     (if h1 = h then Suc (handles_created h es) else handles_created h es)"
| "handles_created h (e # es) = handles_created h es"

definition live_handle :: "nat \<Rightarrow> event list \<Rightarrow> bool" where
  "live_handle h tr =
     (h \<noteq> NULL \<and> count_list tr (Rd_kafka_destroy h) < handles_created h tr)"

definition pthread_join :: "nat \<Rightarrow> world \<Rightarrow> (fault \<times> world) + (unit \<times> world)" where
  "pthread_join t w =
     (if joinable t (trace w) then Inr ((), log (Pthread_join t) w)
      else Inl (InvalidThread t, log (Pthread_join t) w))"

definition rd_kafka_consumer_close :: "nat \<Rightarrow> world \<Rightarrow> (fault \<times> world) + (unit \<times> world)" where
  "rd_kafka_consumer_close h w =
     (if live_handle h (trace w) then Inr ((), log (Rd_kafka_consumer_close h) w)
      else Inl (InvalidHandle h, log (Rd_kafka_consumer_close h) w))"

definition rd_kafka_destroy :: "nat \<Rightarrow> world \<Rightarrow> (fault \<times> world) + (unit \<times> world)" where
  "rd_kafka_destroy h w =
     (if live_handle h (trace w) then Inr ((), log (Rd_kafka_destroy h) w)
      else Inl (InvalidHandle h, log (Rd_kafka_destroy h) w))"

text \<open>
  \<^verbatim>\<open>Consumer_dealloc\<close>. The write of \<^verbatim>\<open>run_poller\<close> is recorded in the trace, as it
  is what the poller thread observes.
\<close>

definition Consumer_dealloc :: "ConsumerObject \<Rightarrow> world \<Rightarrow> (fault \<times> world) + (unit \<times> world)" where
  "Consumer_dealloc self w =
     (let self1 = self\<lparr>run_poller := 0\<rparr>;
          w1 = log (Store_run_poller 0) w
      in case pthread_join (poller_thread self1) w1 of
           Inl f \<Rightarrow> Inl f
         | Inr (u2, w2) \<Rightarrow>
             (case rd_kafka_consumer_close (rk self1) w2 of
                Inl f \<Rightarrow> Inl f
              | Inr (u3, w3) \<Rightarrow>
                  (case rd_kafka_destroy (rk self1) w3 of
                     Inl f \<Rightarrow> Inl f
                   | Inr (u4, w4) \<Rightarrow>
                       (case message_queue_destroy (message_queue self1) w4 of
                          Inl f \<Rightarrow> Inl f
                        | Inr (queue, w5) \<Rightarrow> Inr ((), log Tp_free w5)))))"

text \<open>
  \<^verbatim>\<open>create_consumer\<close>. \<open>allocated\<close> is what \<^verbatim>\<open>PyObject_New\<close> returned: \<open>None\<close> for a
  failed allocation, else the object with whatever its memory holds, since
  \<^verbatim>\<open>PyObject_New\<close> initialises only the header. \<^verbatim>\<open>Py_DECREF\<close> drops the only reference,
  which runs \<^verbatim>\<open>tp_dealloc\<close>, that is \<^verbatim>\<open>Consumer_dealloc\<close>.
\<close>

definition create_consumer ::
  "library \<Rightarrow> ConsumerObject option \<Rightarrow> py_object list \<Rightarrow> world \<Rightarrow>
   (fault \<times> world) + (ConsumerObject option \<times> world)" where
  "create_consumer lib allocated args w =
     (case allocated of
        None \<Rightarrow> Inr (None, w)
      | Some consumer \<Rightarrow>
          (case Consumer_init lib consumer args w of
             (r, consumer1, w1) \<Rightarrow>
               if r < 0 then
                 (case Consumer_dealloc consumer1 w1 of
                    Inl f \<Rightarrow> Inl f
                  | Inr (u, w2) \<Rightarrow> Inr (None, w2))
               else Inr (Some consumer1, w1)))"

subsection \<open>The type object and the module\<close>

text \<open>
  The slots that the initialiser of \<^verbatim>\<open>ConsumerType\<close> sets (\<^verbatim>\<open>tp_basicsize\<close> and
  \<^verbatim>\<open>tp_flags\<close> apart, which carry no behaviour), and \<^verbatim>\<open>tp_methods\<close>, which it does not
  set: the slot stays null, so the type has no methods of its own. The method table of
  the module \<^verbatim>\<open>_core\<close> is \<^verbatim>\<open>core_methods\<close>.
\<close>

datatype c_function = Consumer_new_ptr | Consumer_init_ptr | Consumer_dealloc_ptr | create_consumer_ptr

record PyTypeObject =
  tp_name :: string
  tp_doc :: string
  tp_itemsize :: int
  tp_new :: "c_function option"
  tp_init :: "c_function option"
  tp_dealloc :: "c_function option"
  tp_methods :: "(string \<times> c_function) list"

definition ConsumerType :: PyTypeObject where
  "ConsumerType =
     \<lparr>tp_name = ''_core.Consumer'', tp_doc = ''Kafka Consumer'', tp_itemsize = 0,
      tp_new = Some Consumer_new_ptr, tp_init = Some Consumer_init_ptr,
      tp_dealloc = Some Consumer_dealloc_ptr, tp_methods = []\<rparr>"

definition core_methods :: "(string \<times> c_function) list" where
  "core_methods = [(''create_consumer'', create_consumer_ptr)]"

text \<open>
  \<^verbatim>\<open>PyInit__core\<close>, given the outcomes of its three interpreter calls: whether
  \<^verbatim>\<open>PyType_Ready\<close> succeeded, whether \<^verbatim>\<open>PyModule_Create\<close> returned a module, and
  whether \<^verbatim>\<open>PyModule_AddObject\<close> succeeded (its result is not tested, so the module
  is returned either way). The value is the members of the module returned, by name
  (besides the attributes that every module has): \<^verbatim>\<open>PyModule_Create\<close> enters the
  functions of the method table, and \<^verbatim>\<open>PyModule_AddObject\<close> the type under the name
  \<^verbatim>\<open>Consumer\<close>.
\<close>

datatype module_member = Function c_function | Type PyTypeObject

definition PyInit__core :: "bool \<Rightarrow> bool \<Rightarrow> bool \<Rightarrow> (string \<times> module_member) list option" where
  "PyInit__core type_ready module_created object_added =
     (if \<not> type_ready then None
      else if \<not> module_created then None
      else let m = map (\<lambda>(name, f). (name, Function f)) core_methods;
               m1 = (if object_added then m @ [(''Consumer'', Type ConsumerType)] else m)
           in Some m1)"

subsection \<open>Reading runs and traces\<close>

text \<open>
  Of the results of a run of polls: the messages received without error, and the error
  records. Of a trace: the messages destroyed, and the polls made (handle and timeout
  in milliseconds).
\<close>

fun received :: "rd_kafka_message_t option list \<Rightarrow> rd_kafka_message_t list" where
  "received [] = []"
| "received (None # rs) = received rs"
| "received (Some m # rs) = (if err m = 0 then m # received rs else received rs)"

fun error_records :: "rd_kafka_message_t option list \<Rightarrow> rd_kafka_message_t list" where
  "error_records [] = []"
| "error_records (None # rs) = error_records rs"
| "error_records (Some m # rs) = (if err m \<noteq> 0 then m # error_records rs else error_records rs)"

fun destroyed_messages :: "event list \<Rightarrow> rd_kafka_message_t list" where
  "destroyed_messages [] = []"
| "destroyed_messages (Rd_kafka_message_destroy m # es) = m # destroyed_messages es"
| "destroyed_messages (e # es) = destroyed_messages es"

fun poll_calls :: "event list \<Rightarrow> (nat \<times> int) list" where
  "poll_calls [] = []"
| "poll_calls (Rd_kafka_consumer_poll h t # es) = (h, t) # poll_calls es"
| "poll_calls (e # es) = poll_calls es"

subsection \<open>Collaborators used in the scenarios\<close>

text \<open>
  \<open>parse_two_strings\<close> accepts a tuple of two strings. \<open>accepting_client\<close> accepts every
  setting and creates a handle; \<open>strict_client\<close> rejects empty values;
  \<open>failing_client\<close> accepts every setting and fails to create the handle.
  \<open>uninitialised_object\<close> is an object as \<^verbatim>\<open>PyObject_New\<close> may return it, its fields
  holding what was in memory.
\<close>

definition parse_two_strings :: "py_object list \<Rightarrow> (string \<times> string) option" where
  "parse_two_strings args = (case args of [PyUnicode a, PyUnicode b] \<Rightarrow> Some (a, b) | _ \<Rightarrow> None)"

definition accepting_client :: library where
  "accepting_client =
     \<lparr>PyArg_ParseTuple = parse_two_strings,
      rd_kafka_conf_set = (\<lambda>name value. (RD_KAFKA_CONF_OK, [])),
      rd_kafka_new = (\<lambda>conf. (1, [])),
      pthread_create = 1\<rparr>"

definition strict_client :: library where
  "strict_client =
     \<lparr>PyArg_ParseTuple = parse_two_strings,
      rd_kafka_conf_set = (\<lambda>name value.
         if value = [] then (RD_KAFKA_CONF_INVALID, ''empty value'') else (RD_KAFKA_CONF_OK, [])),
      rd_kafka_new = (\<lambda>conf. (1, [])),
      pthread_create = 1\<rparr>"

definition failing_client :: library where
  "failing_client =
     \<lparr>PyArg_ParseTuple = parse_two_strings,
      rd_kafka_conf_set = (\<lambda>name value. (RD_KAFKA_CONF_OK, [])),
      rd_kafka_new = (\<lambda>conf. (NULL, ''Failed to create thread'')),
      pthread_create = 1\<rparr>"

definition uninitialised_object :: ConsumerObject where
  "uninitialised_object =
     \<lparr>rk = 77, poller_thread = 88, run_poller = 99,
      message_queue = \<lparr>head = 5, tail = 6, size_q = 7\<rparr>\<rparr>"

lemmas scenario_defs = parse_two_strings_def accepting_client_def strict_client_def
  failing_client_def uninitialised_object_def

section \<open>The teardown and the poller as two activities\<close>


datatype dealloc_pc =
  Dealloc_clear | Dealloc_join | Dealloc_close | Dealloc_destroy | Dealloc_queue | Dealloc_free
  | Dealloc_done

text \<open>
  The statements of \<^verbatim>\<open>Consumer_dealloc\<close>, one by one, and their order, for an object
  whose initialisation succeeded: the thread identifier is that of the poller and the
  handle is the one \<^verbatim>\<open>rd_kafka_new\<close> returned, so the library calls return.
\<close>

fun dealloc_step ::
  "dealloc_pc \<Rightarrow> ConsumerObject \<Rightarrow> world \<Rightarrow> (fault \<times> world) + (ConsumerObject \<times> world)" where
  "dealloc_step Dealloc_clear self w = Inr (self\<lparr>run_poller := 0\<rparr>, log (Store_run_poller 0) w)"
| "dealloc_step Dealloc_join self w = Inr (self, log (Pthread_join (poller_thread self)) w)"
| "dealloc_step Dealloc_close self w = Inr (self, log (Rd_kafka_consumer_close (rk self)) w)"
| "dealloc_step Dealloc_destroy self w = Inr (self, log (Rd_kafka_destroy (rk self)) w)"
| "dealloc_step Dealloc_queue self w =
     (case message_queue_destroy (message_queue self) w of
        Inl f \<Rightarrow> Inl f
      | Inr (queue, w1) \<Rightarrow> Inr (self\<lparr>message_queue := queue\<rparr>, w1))"
| "dealloc_step Dealloc_free self w = Inr (self, log Tp_free w)"
| "dealloc_step Dealloc_done self w = Inr (self, w)"


fun dealloc_steps ::
  "dealloc_pc list \<Rightarrow> ConsumerObject \<Rightarrow> world \<Rightarrow> (fault \<times> world) + (ConsumerObject \<times> world)" where
  "dealloc_steps [] self w = Inr (self, w)"
| "dealloc_steps (pc # pcs) self w =
     (case dealloc_step pc self w of
        Inl f \<Rightarrow> Inl f
      | Inr (self1, w1) \<Rightarrow> dealloc_steps pcs self1 w1)"













section \<open>Properties of the queue\<close>

subsection \<open>Allocation and chains\<close>

lemma fold_max_ge: "a \<in> set xs \<Longrightarrow> a \<le> fold max xs (b::nat)"
proof -
  assume a: "a \<in> set xs"
  have "Max (set (b # xs)) = fold max xs b" by (rule Max.set_eq_fold)
  moreover from a have "a \<le> Max (set (b # xs))" by simp
  ultimately show ?thesis by simp
qed

lemma malloc_fresh: "map_of (nodes w) (malloc w) = None"
proof -
  have "malloc w \<notin> fst ` set (nodes w)"
  proof
    assume "malloc w \<in> fst ` set (nodes w)"
    then have "malloc w \<in> set (map fst (nodes w))" by simp
    then have "malloc w \<le> fold max (map fst (nodes w)) 0" by (rule fold_max_ge)
    then show False by (simp add: malloc_def)
  qed
  then show ?thesis by (simp add: map_of_eq_None_iff)
qed

lemma malloc_not_null: "malloc w \<noteq> NULL"
  by (simp add: malloc_def)

lemma malloc_pos: "NULL < malloc w"
  by (simp add: malloc_def)

lemma chain_dom: "chain h p xs \<Longrightarrow> a \<in> fst ` set xs \<Longrightarrow> h a \<noteq> None"
  by (induction xs arbitrary: p) (auto split: option.splits)

lemma chain_not_null: "chain h p xs \<Longrightarrow> a \<in> fst ` set xs \<Longrightarrow> a \<noteq> NULL"
  by (induction xs arbitrary: p) (auto split: option.splits)

lemma chain_upd: "a \<notin> fst ` set xs \<Longrightarrow> chain (h(a := v)) p xs = chain h p xs"
  by (induction xs arbitrary: p) (auto split: option.splits)

lemma chain_snoc:
  "chain h p xs \<Longrightarrow> xs \<noteq> [] \<Longrightarrow> distinct (map fst xs) \<Longrightarrow> h (fst (last xs)) = Some t \<Longrightarrow>
   a \<notin> fst ` set xs \<Longrightarrow> a \<noteq> NULL \<Longrightarrow>
   chain (h(a \<mapsto> \<lparr>message = m, next_node = NULL\<rparr>, fst (last xs) \<mapsto> t\<lparr>next_node := a\<rparr>)) p (xs @ [(a, m)])"
proof (induction xs arbitrary: p)
  case Nil then show ?case by simp
next
  case (Cons x xs)
  show ?case
  proof (cases "xs = []")
    case True
    with Cons.prems show ?thesis by (auto split: option.splits)
  next
    case False
    let ?H = "h(a \<mapsto> \<lparr>message = m, next_node = NULL\<rparr>, fst (last xs) \<mapsto> t\<lparr>next_node := a\<rparr>)"
    from Cons.prems obtain n where n: "h (fst x) = Some n" "message n = snd x" "chain h (next_node n) xs" "p = fst x" "p \<noteq> NULL"
      by (auto split: option.splits)
    from False Cons.prems have ne: "fst x \<noteq> fst (last xs)" "fst x \<noteq> a" by auto
    from Cons.prems have d: "distinct (map fst xs)" and a: "a \<notin> fst ` set xs" by auto
    from Cons.prems False have l: "h (fst (last xs)) = Some t" by simp
    have tl: "chain ?H (next_node n) (xs @ [(a, m)])"
      by (rule Cons.IH [OF n(3) False d l a Cons.prems(6)])
    from ne n have Hx: "?H (fst x) = Some n" by simp
    from n have nn: "fst x \<noteq> NULL" by simp
    have "chain ?H p ((x # xs) @ [(a, m)])"
      by (simp only: append_Cons chain.simps Hx option.case n(2) n(4) nn tl simp_thms not_False_eq_True)
    with False show ?thesis by (simp only: last.simps if_False)
  qed
qed

lemma qrep_init: "qrep (fst (message_queue_init queue w)) (snd (message_queue_init queue w)) []"
  by (simp add: qrep_def message_queue_init_def log_def)

lemma qrep_push:
  assumes "qrep q w xs"
  shows "\<exists>q' w'. message_queue_push q m w = Inr (q', w') \<and> qrep q' w' (xs @ [(malloc w, m)])"
proof (cases "xs = []")
  case True
  with assms show ?thesis
    by (simp add: qrep_def message_queue_push_def Let_def log_def store_def
        AList.update_conv' malloc_pos)
next
  case False
  let ?h = "map_of (nodes w)"
  let ?a = "malloc w"
  from assms False have c: "chain ?h (head q) xs" and d: "distinct (map fst xs)"
    and t: "tail q = fst (last xs)" and s: "size_q q = of_nat (length xs)"
    by (simp_all add: qrep_def)
  from False have lin: "fst (last xs) \<in> fst ` set xs" by simp
  with c obtain tn where tn: "?h (fst (last xs)) = Some tn"
    using chain_dom by blast
  have fresh: "?a \<notin> fst ` set xs"
    using chain_dom [OF c] malloc_fresh [of w] by blast
  with lin have ne: "fst (last xs) \<noteq> ?a" by metis
  from c lin have tnn: "fst (last xs) \<noteq> NULL"
    by (rule chain_not_null)
  have ch: "chain (?h(?a \<mapsto> \<lparr>message = m, next_node = NULL\<rparr>, fst (last xs) \<mapsto> tn\<lparr>next_node := ?a\<rparr>))
              (head q) (xs @ [(?a, m)])"
    by (rule chain_snoc [OF c False d tn fresh malloc_not_null])
  have lk: "(?h(?a \<mapsto> \<lparr>message = m, next_node = NULL\<rparr>)) (fst (last xs)) = Some tn"
    using tn ne by simp
  show ?thesis
    using lk tnn t s d fresh ch
    by (simp add: qrep_def message_queue_push_def Let_def log_def store_def
        AList.update_conv' malloc_pos del: fun_upd_apply)
qed

lemma chain_null_iff: "chain h p xs \<Longrightarrow> (p = NULL) = (xs = [])"
  by (cases xs) auto

lemma qrep_pop:
  assumes "qrep q w (x # xs)"
  shows "\<exists>q' w'. message_queue_pop q w = Inr (snd x, q', w') \<and> qrep q' w' xs"
proof -
  let ?h = "map_of (nodes w)"
  from assms obtain n where hq: "head q = fst x" "head q \<noteq> NULL" and n: "?h (head q) = Some n"
    "message n = snd x" and c: "chain ?h (next_node n) xs"
    by (auto simp: qrep_def split: option.splits)
  from assms have d: "fst x \<notin> fst ` set xs" "distinct (map fst xs)"
    and t: "tail q = fst (last (x # xs))" and s: "size_q q = of_nat (length (x # xs))"
    by (simp_all add: qrep_def)
  from d(1) c have c': "chain (?h(fst x := None)) (next_node n) xs"
    by (simp add: chain_upd)
  from c have z: "(next_node n = NULL) = (xs = [])" by (rule chain_null_iff)
  show ?thesis
    using hq n c' z d t s
    by (simp add: qrep_def message_queue_pop_def Let_def log_def free_def
        AList.delete_conv' del: fun_upd_apply)
qed

lemma qrep_pop_empty:
  "qrep q w [] \<Longrightarrow> message_queue_pop q w = Inl (Blocked, log Pthread_cond_wait (log Pthread_mutex_lock w))"
  by (simp add: qrep_def message_queue_pop_def Let_def)

lemma run_ops_pushes:
  "qrep q w xs \<Longrightarrow>
   \<exists>q' w' ys. run_ops (map Push ms) q w = Inr ([], q', w') \<and> qrep q' w' (xs @ ys) \<and> map snd ys = ms"
proof (induction ms arbitrary: q w xs)
  case Nil
  then show ?case by simp
next
  case (Cons m ms)
  from qrep_push [OF Cons.prems, of m] obtain q1 w1 where
    p: "message_queue_push q m w = Inr (q1, w1)" and r: "qrep q1 w1 (xs @ [(malloc w, m)])"
    by blast
  from Cons.IH [OF r] obtain q' w' ys where
    "run_ops (map Push ms) q1 w1 = Inr ([], q', w')" "qrep q' w' ((xs @ [(malloc w, m)]) @ ys)"
    "map snd ys = ms" by blast
  with p show ?case
    by (intro exI [of _ q'] exI [of _ w'] exI [of _ "(malloc w, m) # ys"]) simp
qed

lemma run_ops_pops:
  "qrep q w xs \<Longrightarrow>
   \<exists>q' w'. run_ops (replicate (length xs) Pop) q w = Inr (map snd xs, q', w') \<and> qrep q' w' []"
proof (induction xs arbitrary: q w)
  case Nil
  then show ?case by simp
next
  case (Cons x xs)
  from qrep_pop [OF Cons.prems] obtain q1 w1 where
    p: "message_queue_pop q w = Inr (snd x, q1, w1)" and r: "qrep q1 w1 xs" by blast
  from Cons.IH [OF r] obtain q' w' where
    "run_ops (replicate (length xs) Pop) q1 w1 = Inr (map snd xs, q', w')" "qrep q' w' []"
    by blast
  with p show ?case by simp
qed

lemma run_ops_append:
  "run_ops (a @ b) q w =
     (case run_ops a q w of
        Inl f \<Rightarrow> Inl f
      | Inr (o1, q1, w1) \<Rightarrow>
          (case run_ops b q1 w1 of
             Inl f \<Rightarrow> Inl f
           | Inr (o2, q2, w2) \<Rightarrow> Inr (o1 @ o2, q2, w2)))"
  by (induction a q w rule: run_ops.induct) (auto split: sum.splits prod.splits)

lemma run_ops_qrep:
  "qrep q w xs \<Longrightarrow> run_ops ops q w = Inr (outs, q', w') \<Longrightarrow>
   \<exists>xs'. qrep q' w' xs' \<and> map snd xs @ pushed ops = outs @ map snd xs'"
proof (induction ops q w arbitrary: xs outs rule: run_ops.induct)
  case (1 q w)
  then show ?case by auto
next
  case (2 m ops q w)
  from qrep_push [OF "2.prems"(1), of m] obtain q1 w1 where
    p: "message_queue_push q m w = Inr (q1, w1)" and r: "qrep q1 w1 (xs @ [(malloc w, m)])"
    by blast
  from "2.prems"(2) p have "run_ops ops q1 w1 = Inr (outs, q', w')" by simp
  from "2.IH" [OF p refl r this] show ?case by simp
next
  case (3 ops q w)
  show ?case
  proof (cases xs)
    case Nil
    with "3.prems" show ?thesis by (simp add: qrep_pop_empty)
  next
    case (Cons x xs1)
    with "3.prems"(1) obtain q1 w1 where
      p: "message_queue_pop q w = Inr (snd x, q1, w1)" and r: "qrep q1 w1 xs1"
      using qrep_pop by blast
    from "3.prems"(2) p obtain outs1 where
      o: "run_ops ops q1 w1 = Inr (outs1, q', w')" "outs = snd x # outs1"
      by (auto split: sum.splits)
    from "3.IH" [OF p refl refl r o(1)] Cons o(2) show ?thesis by simp
  qed
qed

subsection \<open>First in, first out\<close>

text \<open>
  Claim C1. After \<^verbatim>\<open>message_queue_init\<close>, pushing \<open>m1..mN\<close> in order and then popping
  \<open>N\<close> times returns \<open>m1..mN\<close> in that order, and no call blocks or faults. More
  generally, after any run of pushes and pops on the initialised queue in which every
  call returned, the pops have returned a prefix of the pushed messages, and the pushes
  not yet matched by a pop are returned by the next pops in the order they were pushed.
\<close>

theorem message_queue_fifo:
  "case message_queue_init queue w of (q0, w0) \<Rightarrow>
     (\<exists>q' w'. run_ops (map Push ms @ replicate (length ms) Pop) q0 w0 = Inr (ms, q', w')) \<and>
     (run_ops ops q0 w0 = Inr (outs, q1, w1) \<longrightarrow>
        outs = take (length outs) (pushed ops) \<and>
        (\<exists>q2 w2. run_ops (replicate (length (pushed ops) - length outs) Pop) q1 w1 =
           Inr (drop (length outs) (pushed ops), q2, w2)))"
proof -
  obtain q0 w0 where i: "message_queue_init queue w = (q0, w0)" by (cases "message_queue_init queue w")
  from qrep_init [of queue w] i have r0: "qrep q0 w0 []" by simp
  have a: "\<exists>q' w'. run_ops (map Push ms @ replicate (length ms) Pop) q0 w0 = Inr (ms, q', w')"
  proof -
    from run_ops_pushes [OF r0, of ms] obtain qa wa ys where
      p: "run_ops (map Push ms) q0 w0 = Inr ([], qa, wa)" "qrep qa wa ys" "map snd ys = ms"
      by auto
    from run_ops_pops [OF p(2)] obtain qb wb where
      "run_ops (replicate (length ys) Pop) qa wa = Inr (map snd ys, qb, wb)" by blast
    moreover from p(3) have "length ys = length ms" by auto
    ultimately show ?thesis using p(1,3) by (simp add: run_ops_append)
  qed
  have b: "outs = take (length outs) (pushed ops) \<and>
        (\<exists>q2 w2. run_ops (replicate (length (pushed ops) - length outs) Pop) q1 w1 =
           Inr (drop (length outs) (pushed ops), q2, w2))"
    if run: "run_ops ops q0 w0 = Inr (outs, q1, w1)"
  proof -
    from run_ops_qrep [OF r0 run] obtain xs' where
      x: "qrep q1 w1 xs'" "pushed ops = outs @ map snd xs'" by auto
    from run_ops_pops [OF x(1)] obtain q2 w2 where
      "run_ops (replicate (length xs') Pop) q1 w1 = Inr (map snd xs', q2, w2)" by blast
    with x(2) show ?thesis by simp
  qed
  from a b i show ?thesis by simp
qed

theorem message_queue_fifo_witness:
  "run_ops [Push \<lparr>err = 0, payload = ''A''\<rparr>, Push \<lparr>err = 0, payload = ''B''\<rparr>, Pop]
     \<lparr>head = NULL, tail = NULL, size_q = 0\<rparr>
     \<lparr>nodes = [], trace = [Pthread_mutex_init, Pthread_cond_init]\<rparr> =
   Inr ([\<lparr>err = 0, payload = ''A''\<rparr>], \<lparr>head = 2, tail = 2, size_q = 1\<rparr>,
        \<lparr>nodes = [(2, \<lparr>message = \<lparr>err = 0, payload = ''B''\<rparr>, next_node = NULL\<rparr>)],
         trace = [Pthread_mutex_init, Pthread_cond_init, Pthread_mutex_lock,
                  Pthread_cond_signal, Pthread_mutex_unlock, Pthread_mutex_lock,
                  Pthread_cond_signal, Pthread_mutex_unlock, Pthread_mutex_lock,
                  Pthread_mutex_unlock]\<rparr>) \<and>
   (\<exists>q2 w2. run_ops [Pop] \<lparr>head = 2, tail = 2, size_q = 1\<rparr>
        \<lparr>nodes = [(2, \<lparr>message = \<lparr>err = 0, payload = ''B''\<rparr>, next_node = NULL\<rparr>)],
         trace = [Pthread_mutex_init, Pthread_cond_init, Pthread_mutex_lock,
                  Pthread_cond_signal, Pthread_mutex_unlock, Pthread_mutex_lock,
                  Pthread_cond_signal, Pthread_mutex_unlock, Pthread_mutex_lock,
                  Pthread_mutex_unlock]\<rparr> =
      Inr ([\<lparr>err = 0, payload = ''B''\<rparr>], q2, w2))"
proof -
  let ?ops = "[Push \<lparr>err = 0, payload = ''A''\<rparr>, Push \<lparr>err = 0, payload = ''B''\<rparr>, Pop]"
  let ?q1 = "\<lparr>head = 2, tail = 2, size_q = 1\<rparr>"
  let ?w1 = "\<lparr>nodes = [(2, \<lparr>message = \<lparr>err = 0, payload = ''B''\<rparr>, next_node = NULL\<rparr>)],
         trace = [Pthread_mutex_init, Pthread_cond_init, Pthread_mutex_lock,
                  Pthread_cond_signal, Pthread_mutex_unlock, Pthread_mutex_lock,
                  Pthread_cond_signal, Pthread_mutex_unlock, Pthread_mutex_lock,
                  Pthread_mutex_unlock]\<rparr>"
  have i: "message_queue_init \<lparr>head = 5, tail = 7, size_q = 3\<rparr> \<lparr>nodes = [], trace = []\<rparr> =
      (\<lparr>head = NULL, tail = NULL, size_q = 0\<rparr>,
       \<lparr>nodes = [], trace = [Pthread_mutex_init, Pthread_cond_init]\<rparr>)"
    by (simp add: message_queue_init_def log_def)
  have r: "run_ops ?ops \<lparr>head = NULL, tail = NULL, size_q = 0\<rparr>
      \<lparr>nodes = [], trace = [Pthread_mutex_init, Pthread_cond_init]\<rparr> =
      Inr ([\<lparr>err = 0, payload = ''A''\<rparr>], ?q1, ?w1)"
    by (simp add: message_queue_push_def message_queue_pop_def Let_def log_def store_def
        free_def malloc_def)
  from message_queue_fifo [where queue = "\<lparr>head = 5, tail = 7, size_q = 3\<rparr>"
      and w = "\<lparr>nodes = [], trace = []\<rparr>" and ops = ?ops
      and outs = "[\<lparr>err = 0, payload = ''A''\<rparr>]" and ?q1.0 = ?q1 and ?w1.0 = ?w1] i r
  show ?thesis by simp
qed

subsection \<open>Chains, traversals and the counter\<close>

lemma traversal_chain:
  "traversal h n p = Some xs \<longleftrightarrow> chain (map_of h) p xs \<and> length xs = n"
proof (induction n arbitrary: p xs)
  case 0
  then show ?case by (cases xs) auto
next
  case (Suc n)
  show ?case
  proof (cases xs)
    case Nil
    then show ?thesis by (auto split: option.splits)
  next
    case (Cons x xs')
    then show ?thesis using Suc.IH [of _ xs'] by (cases x) (auto split: option.splits)
  qed
qed

lemma chain_fun: "chain h p xs \<Longrightarrow> chain h p ys \<Longrightarrow> xs = ys"
proof (induction xs arbitrary: p ys)
  case Nil
  then show ?case by (cases ys) auto
next
  case (Cons x xs)
  then show ?case by (cases ys) (auto split: option.splits simp: prod_eq_iff)
qed

lemma chain_suffix: "chain h p (xs @ y # ys) \<Longrightarrow> chain h (fst y) (y # ys)"
proof (induction xs arbitrary: p)
  case Nil
  then show ?case by auto
next
  case (Cons x xs)
  from Cons.prems obtain n :: MessageNode where "chain h (next_node n) (xs @ y # ys)"
    by (auto split: option.splits)
  then show ?case by (rule Cons.IH)
qed

lemma chain_distinct: "chain h p xs \<Longrightarrow> distinct (map fst xs)"
proof (induction xs arbitrary: p)
  case Nil
  then show ?case by simp
next
  case (Cons x xs)
  from Cons.prems obtain n where n: "p = fst x" "h p = Some n" "chain h (next_node n) xs"
    by (auto split: option.splits)
  have "fst x \<notin> fst ` set xs"
  proof
    assume "fst x \<in> fst ` set xs"
    then obtain y where "y \<in> set xs" "fst y = fst x" by auto
    then obtain us vs where xs: "xs = us @ y # vs" by (auto simp: in_set_conv_decomp)
    with n(3) have "chain h (fst y) (y # vs)" using chain_suffix by blast
    with \<open>fst y = fst x\<close> n(1) Cons.prems have "y # vs = x # xs" using chain_fun by metis
    with xs show False by (auto dest: arg_cong [where f = length])
  qed
  with Cons.IH [OF n(3)] show ?case by simp
qed

lemma chain_last_next:
  "chain h p xs \<Longrightarrow> xs \<noteq> [] \<Longrightarrow> \<exists>n. h (fst (last xs)) = Some n \<and> next_node n = NULL"
  by (induction xs arbitrary: p) (auto split: option.splits if_splits)

lemma sint_of_nat_small: "n < 2 ^ 31 \<Longrightarrow> sint (of_nat n :: 32 word) = int n"
proof -
  assume n: "n < 2 ^ 31"
  then have "int n < 2 ^ 31" by (metis of_nat_less_iff of_nat_numeral of_nat_power)
  then have "signed_take_bit 31 (int n) = int n"
    by (intro signed_take_bit_int_eq_self) simp_all
  then show ?thesis by (simp add: signed_of_nat)
qed

lemma of_nat_sint_nonneg: "0 \<le> sint (s :: 32 word) \<Longrightarrow> of_nat (nat (sint s)) = s"
  by simp

lemma of_nat_eq_0_small: "n < 2 ^ 31 \<Longrightarrow> (of_nat n = (0 :: 32 word)) = (n = 0)"
proof -
  assume n: "n < 2 ^ 31"
  show ?thesis
  proof
    assume "of_nat n = (0 :: 32 word)"
    then have "sint (of_nat n :: 32 word) = 0" by simp
    with n show "n = 0" by (simp add: sint_of_nat_small)
  qed simp
qed

lemma sint_lt_31: "sint (s :: 32 word) < 2 ^ 31"
  using sint_lt [of s] by simp

lemma qrep_invariant:
  assumes "qrep q w xs" and "length xs < 2 ^ 31"
  shows "queue_invariant q w"
proof -
  from assms have c: "chain (map_of (nodes w)) (head q) xs"
    and t: "tail q = (if xs = [] then NULL else fst (last xs))"
    and s: "size_q q = of_nat (length xs)" by (simp_all add: qrep_def)
  from assms(2) s have n: "nat (sint (size_q q)) = length xs" by (simp add: sint_of_nat_small)
  from c have tr: "traversal (nodes w) (length xs) (head q) = Some xs"
    by (simp add: traversal_chain)
  from c have h: "(head q = NULL) = (xs = [])" by (rule chain_null_iff)
  have tn: "(tail q = NULL) = (xs = [])"
  proof (cases "xs = []")
    case True with t show ?thesis by simp
  next
    case False
    then have "fst (last xs) \<in> fst ` set xs" by simp
    with c have "fst (last xs) \<noteq> NULL" by (rule chain_not_null)
    with False t show ?thesis by simp
  qed
  from assms(2) s have z: "(size_q q = 0) = (xs = [])" by (simp add: of_nat_eq_0_small)
  show ?thesis
    unfolding queue_invariant_def n tr using h tn z t by simp
qed

lemma invariant_qrep:
  assumes "queue_invariant q w"
  shows "\<exists>xs. qrep q w xs \<and> length xs < 2 ^ 31"
proof -
  from assms obtain xs where tr: "traversal (nodes w) (nat (sint (size_q q))) (head q) = Some xs"
    and l: "xs = [] \<or> fst (last xs) = tail q"
    and ht: "(head q = NULL) = (tail q = NULL)" and ts: "(tail q = NULL) = (size_q q = 0)"
    by (auto simp: queue_invariant_def split: option.splits)
  from tr have c: "chain (map_of (nodes w)) (head q) xs" and n: "length xs = nat (sint (size_q q))"
    by (simp_all add: traversal_chain)
  from c have h: "(head q = NULL) = (xs = [])" by (rule chain_null_iff)
  have nonneg: "0 \<le> sint (size_q q)"
  proof (rule ccontr)
    assume "\<not> 0 \<le> sint (size_q q)"
    with n have "xs = []" by simp
    with h ht ts have "size_q q = 0" by simp
    with \<open>\<not> 0 \<le> sint (size_q q)\<close> show False by simp
  qed
  with n have s: "size_q q = of_nat (length xs)" by simp
  from n sint_lt_31 [of "size_q q"] have b: "length xs < 2 ^ 31"
    by (metis nat_less_iff nonneg of_nat_numeral of_nat_power)
  from h ht l have t: "tail q = (if xs = [] then NULL else fst (last xs))" by auto
  have "qrep q w xs"
    unfolding qrep_def by (intro conjI c chain_distinct [OF c] t s)
  with b show ?thesis by blast
qed

lemma qrep_fun: "qrep q w xs \<Longrightarrow> qrep q w ys \<Longrightarrow> xs = ys"
  unfolding qrep_def using chain_fun by blast

lemma invariant_init: "queue_invariant (fst (message_queue_init queue w)) (snd (message_queue_init queue w))"
  by (rule qrep_invariant [OF qrep_init]) simp

lemma invariant_push:
  assumes "queue_invariant q w" and "size_q q \<noteq> 2 ^ 31 - 1"
  shows "\<exists>q' w'. message_queue_push q m w = Inr (q', w') \<and> queue_invariant q' w'"
proof -
  from invariant_qrep [OF assms(1)] obtain xs where x: "qrep q w xs" "length xs < 2 ^ 31" by blast
  from x(1) have s: "size_q q = of_nat (length xs)" by (simp add: qrep_def)
  have "length xs \<noteq> 2 ^ 31 - 1"
  proof
    assume "length xs = 2 ^ 31 - 1"
    with s have "size_q q = 2 ^ 31 - 1" by simp
    with assms(2) show False by simp
  qed
  with x(2) have b: "length (xs @ [(malloc w, m)]) < 2 ^ 31" by simp
  from qrep_push [OF x(1), of m] obtain q' w' where
    p: "message_queue_push q m w = Inr (q', w')" "qrep q' w' (xs @ [(malloc w, m)])" by blast
  from qrep_invariant [OF p(2) b] p(1) show ?thesis by blast
qed

lemma invariant_pop:
  assumes "queue_invariant q w"
  shows "if head q = NULL
         then message_queue_pop q w = Inl (Blocked, log Pthread_cond_wait (log Pthread_mutex_lock w))
         else (\<exists>m q' w'. message_queue_pop q w = Inr (m, q', w') \<and> queue_invariant q' w')"
proof -
  from invariant_qrep [OF assms] obtain xs where x: "qrep q w xs" "length xs < 2 ^ 31" by blast
  from x(1) have "chain (map_of (nodes w)) (head q) xs" by (simp add: qrep_def)
  then have h: "(head q = NULL) = (xs = [])" by (rule chain_null_iff)
  show ?thesis
  proof (cases xs)
    case Nil
    with x(1) h show ?thesis by (simp add: qrep_pop_empty)
  next
    case (Cons y ys)
    with x(1) obtain q' w' where p: "message_queue_pop q w = Inr (snd y, q', w')" "qrep q' w' ys"
      using qrep_pop by blast
    from Cons x(2) have "length ys < 2 ^ 31" by simp
    from qrep_invariant [OF p(2) this] p(1) h Cons show ?thesis by simp
  qed
qed

lemma invariant_reachable:
  assumes "run_ops ops (fst (message_queue_init queue w)) (snd (message_queue_init queue w)) = Inr (outs, q, w')"
    and "length (pushed ops) - length outs < 2 ^ 31"
  shows "queue_invariant q w'"
proof -
  from run_ops_qrep [OF qrep_init assms(1)] obtain xs where
    x: "qrep q w' xs" "pushed ops = outs @ map snd xs" by auto
  from x(2) have "length xs = length (pushed ops) - length outs" by simp
  with assms(2) have "length xs < 2 ^ 31" by simp
  with x(1) show ?thesis by (rule qrep_invariant)
qed

text \<open>
  Claim C3, as the code has it. \<^verbatim>\<open>message_queue_init\<close> establishes the invariant; every
  state reached from it by pushes and pops that holds fewer than \<open>2 ^ 31\<close> messages
  satisfies it; a push on a state that satisfies it returns and preserves it unless the
  counter stands at \<open>2 ^ 31 - 1\<close>, the largest \<^verbatim>\<open>int\<close>; a pop on a state that satisfies it
  waits when the queue is empty and otherwise returns and preserves it.
\<close>

theorem queue_invariant_preserved:
  "queue_invariant (fst (message_queue_init queue w)) (snd (message_queue_init queue w)) \<and>
   (run_ops ops (fst (message_queue_init queue w)) (snd (message_queue_init queue w)) = Inr (outs, q, w') \<and>
    length (pushed ops) - length outs < 2 ^ 31 \<longrightarrow> queue_invariant q w') \<and>
   (queue_invariant q1 w1 \<and> size_q q1 \<noteq> 2 ^ 31 - 1 \<longrightarrow>
      (\<exists>q2 w2. message_queue_push q1 m w1 = Inr (q2, w2) \<and> queue_invariant q2 w2)) \<and>
   (queue_invariant q1 w1 \<longrightarrow>
      (if head q1 = NULL
       then message_queue_pop q1 w1 = Inl (Blocked, log Pthread_cond_wait (log Pthread_mutex_lock w1))
       else (\<exists>m' q3 w3. message_queue_pop q1 w1 = Inr (m', q3, w3) \<and> queue_invariant q3 w3)))"
  using invariant_init invariant_reachable invariant_push invariant_pop by blast

theorem queue_invariant_preserved_witness:
  "queue_invariant \<lparr>head = 1, tail = 1, size_q = 1\<rparr>
     \<lparr>nodes = [(1, \<lparr>message = \<lparr>err = 0, payload = ''A''\<rparr>, next_node = NULL\<rparr>)],
      trace = [Pthread_mutex_init, Pthread_cond_init, Pthread_mutex_lock,
               Pthread_cond_signal, Pthread_mutex_unlock]\<rparr> \<and>
   (\<exists>q2 w2. message_queue_push \<lparr>head = 1, tail = 1, size_q = 1\<rparr> \<lparr>err = 0, payload = ''B''\<rparr>
        \<lparr>nodes = [(1, \<lparr>message = \<lparr>err = 0, payload = ''A''\<rparr>, next_node = NULL\<rparr>)],
         trace = [Pthread_mutex_init, Pthread_cond_init, Pthread_mutex_lock,
                  Pthread_cond_signal, Pthread_mutex_unlock]\<rparr> = Inr (q2, w2) \<and>
      queue_invariant q2 w2) \<and>
   (\<exists>m' q3 w3. message_queue_pop \<lparr>head = 1, tail = 1, size_q = 1\<rparr>
        \<lparr>nodes = [(1, \<lparr>message = \<lparr>err = 0, payload = ''A''\<rparr>, next_node = NULL\<rparr>)],
         trace = [Pthread_mutex_init, Pthread_cond_init, Pthread_mutex_lock,
                  Pthread_cond_signal, Pthread_mutex_unlock]\<rparr> = Inr (m', q3, w3) \<and>
      queue_invariant q3 w3)"
proof -
  let ?Q0 = "\<lparr>head = 5, tail = 7, size_q = 3\<rparr>"
  let ?W0 = "\<lparr>nodes = [], trace = []\<rparr>"
  let ?Q1 = "\<lparr>head = 1, tail = 1, size_q = 1\<rparr>"
  let ?W1 = "\<lparr>nodes = [(1, \<lparr>message = \<lparr>err = 0, payload = ''A''\<rparr>, next_node = NULL\<rparr>)],
      trace = [Pthread_mutex_init, Pthread_cond_init, Pthread_mutex_lock,
               Pthread_cond_signal, Pthread_mutex_unlock]\<rparr>"
  have r: "run_ops [Push \<lparr>err = 0, payload = ''A''\<rparr>] (fst (message_queue_init ?Q0 ?W0))
      (snd (message_queue_init ?Q0 ?W0)) = Inr ([], ?Q1, ?W1)"
    by (simp add: message_queue_init_def message_queue_push_def Let_def log_def store_def
        malloc_def)
  have b: "length (pushed [Push \<lparr>err = 0, payload = ''A''\<rparr>]) - length ([] :: rd_kafka_message_t list) < 2 ^ 31"
    by simp
  have s: "size_q ?Q1 \<noteq> 2 ^ 31 - 1" and h: "head ?Q1 \<noteq> NULL" by simp_all
  from queue_invariant_preserved [where queue = ?Q0 and w = ?W0
      and ops = "[Push \<lparr>err = 0, payload = ''A''\<rparr>]" and outs = "[]" and q = ?Q1 and w' = ?W1
      and ?q1.0 = ?Q1 and ?w1.0 = ?W1 and m = "\<lparr>err = 0, payload = ''B''\<rparr>"] r b s h
  show ?thesis by simp
qed

text \<open>
  The claim as the specification states it, for every reachable state, fails when the
  \<^verbatim>\<open>int\<close> counter overflows: after \<open>2 ^ 31\<close> pushes on the initialised queue the list is
  not empty and the counter is negative.
\<close>

theorem queue_invariant_overflow:
  "case run_ops (replicate (2 ^ 31) (Push \<lparr>err = 0, payload = ''m''\<rparr>))
          (fst (message_queue_init \<lparr>head = NULL, tail = NULL, size_q = 0\<rparr> \<lparr>nodes = [], trace = []\<rparr>))
          (snd (message_queue_init \<lparr>head = NULL, tail = NULL, size_q = 0\<rparr> \<lparr>nodes = [], trace = []\<rparr>)) of
     Inl f \<Rightarrow> False
   | Inr (outs, q, w') \<Rightarrow> head q \<noteq> NULL \<and> sint (size_q q) < 0 \<and> \<not> queue_invariant q w'"
proof -
  let ?m = "\<lparr>err = 0, payload = ''m''\<rparr>"
  let ?i = "message_queue_init \<lparr>head = NULL, tail = NULL, size_q = 0\<rparr> \<lparr>nodes = [], trace = []\<rparr>"
  from run_ops_pushes [OF qrep_init, where ms = "replicate (2 ^ 31) ?m"] obtain q' w' ys where
    r: "run_ops (map Push (replicate (2 ^ 31) ?m)) (fst ?i) (snd ?i) = Inr ([], q', w')"
    and y: "qrep q' w' ys" "map snd ys = replicate (2 ^ 31) ?m"
    by (metis append_Nil)
  from y(2) have l: "length ys = 2 ^ 31" by (metis length_map length_replicate)
  then have ne: "ys \<noteq> []" by auto
  from y(1) have "chain (map_of (nodes w')) (head q') ys" by (simp add: qrep_def)
  with ne have h: "head q' \<noteq> NULL" using chain_null_iff by blast
  from y(1) l have "size_q q' = 2 ^ 31" by (simp add: qrep_def)
  then have s: "sint (size_q q') < 0" by simp
  have n: "\<not> queue_invariant q' w'"
  proof
    assume "queue_invariant q' w'"
    from invariant_qrep [OF this] obtain xs where "qrep q' w' xs" "length xs < 2 ^ 31" by blast
    with y(1) l show False using qrep_fun by fastforce
  qed
  from r h s n show ?thesis by (simp add: map_replicate)
qed

subsection \<open>Destroying the queue\<close>

lemma destroy_loop_chain:
  "chain (map_of (nodes w)) (head q) xs \<Longrightarrow>
   destroy_loop q w =
     Inr (q\<lparr>head := NULL\<rparr>,
          w\<lparr>nodes := fold AList.delete (map fst xs) (nodes w),
            trace := trace w @ map (\<lambda>x. Rd_kafka_message_destroy (snd x)) xs\<rparr>)"
proof (induction xs arbitrary: q w)
  case Nil
  then show ?case by (simp add: destroy_loop.simps)
next
  case (Cons x xs)
  let ?h = "map_of (nodes w)"
  from Cons.prems obtain n :: MessageNode where n: "head q = fst x" "head q \<noteq> NULL" "?h (head q) = Some n"
    "message n = snd x" "chain ?h (next_node n) xs"
    by (auto split: option.splits)
  from chain_distinct [OF Cons.prems] have "fst x \<notin> fst ` set xs" by simp
  with n(5) have c: "chain (?h(fst x := None)) (next_node n) xs" by (simp add: chain_upd)
  let ?q = "q\<lparr>head := next_node n\<rparr>"
  let ?w = "free (head q) (log (Rd_kafka_message_destroy (message n)) w)"
  from c n(1) have "chain (map_of (nodes ?w)) (head ?q) xs"
    by (simp add: free_def log_def AList.delete_conv')
  from Cons.IH [OF this] have "destroy_loop ?q ?w =
     Inr (?q\<lparr>head := NULL\<rparr>,
          ?w\<lparr>nodes := fold AList.delete (map fst xs) (nodes ?w),
            trace := trace ?w @ map (\<lambda>x. Rd_kafka_message_destroy (snd x)) xs\<rparr>)" .
  moreover have "destroy_loop q w = destroy_loop ?q ?w"
    using n(2,3) by (subst destroy_loop.simps) simp
  ultimately show ?case using n(1,4) by (simp add: free_def log_def)
qed

lemma fold_delete_keep:
  "map_of al a = None \<Longrightarrow> map_of (fold AList.delete as al) a = None"
  by (induction as arbitrary: al) (simp_all add: AList.delete_conv')

lemma fold_delete_none: "a \<in> set as \<Longrightarrow> map_of (fold AList.delete as al) a = None"
proof (induction as arbitrary: al)
  case Nil
  then show ?case by simp
next
  case (Cons b as)
  show ?case
  proof (cases "a = b")
    case True
    have "map_of (AList.delete b al) b = None" by (simp add: AList.delete_conv')
    with True show ?thesis by (simp add: fold_delete_keep)
  next
    case False
    with Cons show ?thesis by simp
  qed
qed

text \<open>
  Claim C8, as the code has it. When the walk from \<^verbatim>\<open>head\<close> ends at the null pointer
  after the nodes \<open>xs\<close>, \<^verbatim>\<open>message_queue_destroy\<close> returns, having taken the lock,
  destroyed the message of every node of \<open>xs\<close> in order and freed every such node, and
  only then unlocked and destroyed the mutex and the condition variable. It leaves
  \<^verbatim>\<open>head\<close> null, and \<^verbatim>\<open>tail\<close> and \<^verbatim>\<open>size\<close> as they were.
\<close>

theorem message_queue_destroy_frees:
  "traversal (nodes w) n (head q) = Some xs \<longrightarrow>
   message_queue_destroy q w =
     Inr (q\<lparr>head := NULL\<rparr>,
          w\<lparr>nodes := fold AList.delete (map fst xs) (nodes w),
            trace := trace w @ [Pthread_mutex_lock] @
                     map (\<lambda>x. Rd_kafka_message_destroy (snd x)) xs @
                     [Pthread_mutex_unlock, Pthread_mutex_destroy, Pthread_cond_destroy]\<rparr>) \<and>
   (\<forall>a \<in> fst ` set xs. map_of (fold AList.delete (map fst xs) (nodes w)) a = None)"
proof
  assume "traversal (nodes w) n (head q) = Some xs"
  then have "chain (map_of (nodes (log Pthread_mutex_lock w))) (head q) xs"
    by (simp add: traversal_chain log_def)
  from destroy_loop_chain [OF this]
  have "message_queue_destroy q w =
     Inr (q\<lparr>head := NULL\<rparr>,
          w\<lparr>nodes := fold AList.delete (map fst xs) (nodes w),
            trace := trace w @ [Pthread_mutex_lock] @
                     map (\<lambda>x. Rd_kafka_message_destroy (snd x)) xs @
                     [Pthread_mutex_unlock, Pthread_mutex_destroy, Pthread_cond_destroy]\<rparr>)"
    by (simp add: message_queue_destroy_def log_def)
  moreover have "\<forall>a \<in> fst ` set xs. map_of (fold AList.delete (map fst xs) (nodes w)) a = None"
    by (simp add: fold_delete_none)
  ultimately show "message_queue_destroy q w =
     Inr (q\<lparr>head := NULL\<rparr>,
          w\<lparr>nodes := fold AList.delete (map fst xs) (nodes w),
            trace := trace w @ [Pthread_mutex_lock] @
                     map (\<lambda>x. Rd_kafka_message_destroy (snd x)) xs @
                     [Pthread_mutex_unlock, Pthread_mutex_destroy, Pthread_cond_destroy]\<rparr>) \<and>
   (\<forall>a \<in> fst ` set xs. map_of (fold AList.delete (map fst xs) (nodes w)) a = None)" by blast
qed

theorem message_queue_destroy_frees_witness:
  "traversal [(1, \<lparr>message = \<lparr>err = 0, payload = ''A''\<rparr>, next_node = NULL\<rparr>)] 1 1 =
     Some [(1, \<lparr>err = 0, payload = ''A''\<rparr>)] \<and>
   message_queue_destroy \<lparr>head = 1, tail = 1, size_q = 1\<rparr>
     \<lparr>nodes = [(1, \<lparr>message = \<lparr>err = 0, payload = ''A''\<rparr>, next_node = NULL\<rparr>)], trace = []\<rparr> =
   Inr (\<lparr>head = NULL, tail = 1, size_q = 1\<rparr>,
        \<lparr>nodes = [],
         trace = [Pthread_mutex_lock, Rd_kafka_message_destroy \<lparr>err = 0, payload = ''A''\<rparr>,
                  Pthread_mutex_unlock, Pthread_mutex_destroy, Pthread_cond_destroy]\<rparr>)"
proof -
  have t: "traversal (nodes \<lparr>nodes = [(1, \<lparr>message = \<lparr>err = 0, payload = ''A''\<rparr>, next_node = NULL\<rparr>)], trace = []\<rparr>) 1
      (head \<lparr>head = 1, tail = 1, size_q = 1\<rparr>) = Some [(1, \<lparr>err = 0, payload = ''A''\<rparr>)]"
    by simp
  from message_queue_destroy_frees [where q = "\<lparr>head = 1, tail = 1, size_q = 1\<rparr>"
      and w = "\<lparr>nodes = [(1, \<lparr>message = \<lparr>err = 0, payload = ''A''\<rparr>, next_node = NULL\<rparr>)], trace = []\<rparr>"
      and n = 1 and xs = "[(1, \<lparr>err = 0, payload = ''A''\<rparr>)]"] t
  show ?thesis by simp
qed

text \<open>
  The claim as the specification states it fails on a queue that holds one message:
  after \<^verbatim>\<open>message_queue_destroy\<close> the field \<^verbatim>\<open>head\<close> is null, but \<^verbatim>\<open>tail\<close> still holds the
  freed address and \<^verbatim>\<open>size\<close> is still 1, so the invariant of the empty queue does not
  hold.
\<close>

theorem message_queue_destroy_keeps_tail:
  "message_queue_destroy \<lparr>head = 1, tail = 1, size_q = 1\<rparr>
     \<lparr>nodes = [(1, \<lparr>message = \<lparr>err = 0, payload = ''A''\<rparr>, next_node = NULL\<rparr>)], trace = []\<rparr> =
   Inr (\<lparr>head = NULL, tail = 1, size_q = 1\<rparr>,
        \<lparr>nodes = [],
         trace = [Pthread_mutex_lock, Rd_kafka_message_destroy \<lparr>err = 0, payload = ''A''\<rparr>,
                  Pthread_mutex_unlock, Pthread_mutex_destroy, Pthread_cond_destroy]\<rparr>) \<and>
   \<not> queue_invariant \<lparr>head = NULL, tail = 1, size_q = 1\<rparr>
        \<lparr>nodes = [],
         trace = [Pthread_mutex_lock, Rd_kafka_message_destroy \<lparr>err = 0, payload = ''A''\<rparr>,
                  Pthread_mutex_unlock, Pthread_mutex_destroy, Pthread_cond_destroy]\<rparr>"
  by (simp add: message_queue_destroy_def destroy_loop.simps log_def free_def
      queue_invariant_def)

section \<open>Properties of the consumer object\<close>

subsection \<open>A failed initialisation in \<^verbatim>\<open>create_consumer\<close>\<close>


lemma handles_created_append:
  "handles_created h (es @ fs) = handles_created h es + handles_created h fs"
  by (induction h es rule: handles_created.induct) simp_all






text \<open>
  Claim C7 says that after a failed creation of the client nothing further is done and
  no resource is held. The code does otherwise: with a client whose \<^verbatim>\<open>rd_kafka_new\<close>
  fails, \<^verbatim>\<open>create_consumer\<close> records the error, never releases the configuration object
  it allocated, and then enters the teardown on the uninitialised object, which ends in
  \<^verbatim>\<open>pthread_join\<close> on the thread identifier found in the fresh memory.
\<close>

theorem create_consumer_client_creation_failure:
  "create_consumer failing_client (Some uninitialised_object)
     [PyUnicode ''broker:9092'', PyUnicode ''g1''] \<lparr>nodes = [], trace = []\<rparr> =
   Inl (InvalidThread 88,
        \<lparr>nodes = [],
         trace = [Rd_kafka_conf_new,
                  Rd_kafka_conf_set ''bootstrap.servers'' ''broker:9092'',
                  Rd_kafka_conf_set ''group.id'' ''g1'',
                  Rd_kafka_conf_set ''enable.auto.commit'' ''false'',
                  Rd_kafka_new [(''bootstrap.servers'', ''broker:9092''), (''group.id'', ''g1''),
                                (''enable.auto.commit'', ''false'')] NULL,
                  PyErr_SetString ''RuntimeError'' ''Failed to create thread'',
                  Store_run_poller 0, Pthread_join 88]\<rparr>)"
  by (simp add: create_consumer_def Consumer_init_def Consumer_dealloc_def pthread_join_def
      joinable_def scenario_defs log_def)

subsection \<open>Validation of the constructor arguments\<close>

text \<open>
  The three ways through \<^verbatim>\<open>Consumer_init\<close> that the settings of the two strings decide.
\<close>

lemma Consumer_init_endpoints_rejected:
  assumes "PyArg_ParseTuple lib args = Some (b, g)"
    and "fst (rd_kafka_conf_set lib ''bootstrap.servers'' b) \<noteq> RD_KAFKA_CONF_OK"
  shows "Consumer_init lib self args w =
           (- 1, self,
            w\<lparr>trace := trace w @
               [Rd_kafka_conf_new, Rd_kafka_conf_set ''bootstrap.servers'' b,
                PyErr_SetString ''ValueError''
                  (snd (rd_kafka_conf_set lib ''bootstrap.servers'' b))]\<rparr>)"
  using assms
  by (simp add: Consumer_init_def Let_def log_def split_beta)

lemma Consumer_init_group_rejected:
  assumes "PyArg_ParseTuple lib args = Some (b, g)"
    and "fst (rd_kafka_conf_set lib ''bootstrap.servers'' b) = RD_KAFKA_CONF_OK"
    and "fst (rd_kafka_conf_set lib ''group.id'' g) \<noteq> RD_KAFKA_CONF_OK"
  shows "Consumer_init lib self args w =
           (- 1, self,
            w\<lparr>trace := trace w @
               [Rd_kafka_conf_new, Rd_kafka_conf_set ''bootstrap.servers'' b,
                Rd_kafka_conf_set ''group.id'' g,
                PyErr_SetString ''ValueError'' (snd (rd_kafka_conf_set lib ''group.id'' g))]\<rparr>)"
  using assms
  by (simp add: Consumer_init_def Let_def log_def split_beta)

lemma Consumer_init_accepted:
  assumes "PyArg_ParseTuple lib args = Some (b, g)"
    and "fst (rd_kafka_conf_set lib ''bootstrap.servers'' b) = RD_KAFKA_CONF_OK"
    and "fst (rd_kafka_conf_set lib ''group.id'' g) = RD_KAFKA_CONF_OK"
    and "fst (rd_kafka_conf_set lib ''enable.auto.commit'' ''false'') = RD_KAFKA_CONF_OK"
    and "fst (rd_kafka_new lib [(''bootstrap.servers'', b), (''group.id'', g),
                                (''enable.auto.commit'', ''false'')]) \<noteq> NULL"
  shows "Consumer_init lib self args w =
           (0,
            self\<lparr>rk := fst (rd_kafka_new lib [(''bootstrap.servers'', b), (''group.id'', g),
                                               (''enable.auto.commit'', ''false'')]),
                 message_queue := (message_queue self)\<lparr>head := NULL, tail := NULL, size_q := 0\<rparr>,
                 run_poller := 1, poller_thread := pthread_create lib\<rparr>,
            w\<lparr>trace := trace w @
               [Rd_kafka_conf_new, Rd_kafka_conf_set ''bootstrap.servers'' b,
                Rd_kafka_conf_set ''group.id'' g,
                Rd_kafka_conf_set ''enable.auto.commit'' ''false'',
                Rd_kafka_new [(''bootstrap.servers'', b), (''group.id'', g),
                              (''enable.auto.commit'', ''false'')]
                  (fst (rd_kafka_new lib [(''bootstrap.servers'', b), (''group.id'', g),
                                          (''enable.auto.commit'', ''false'')])),
                Pthread_mutex_init, Pthread_cond_init, Store_run_poller 1,
                Pthread_create (pthread_create lib)]\<rparr>)"
  using assms
  by (simp add: Consumer_init_def Let_def log_def message_queue_init_def split_beta)

text \<open>
  Claim C6, as the code has it. \<^verbatim>\<open>Consumer_init\<close> makes no check of its own on the two
  strings: it hands them to \<^verbatim>\<open>rd_kafka_conf_set\<close>. When the client rejects the endpoints,
  or accepts them and rejects the group identifier, \<^verbatim>\<open>Consumer_init\<close> returns \<open>-1\<close> having
  raised a \<^verbatim>\<open>ValueError\<close> whose text is the one the client gave for that setting; it
  leaves the object as it was and makes no further call, so no thread is created. When
  the client accepts the three settings and creates the handle, \<^verbatim>\<open>Consumer_init\<close> returns
  \<open>0\<close> with the handle stored, the queue initialised and the poller thread started,
  whatever the strings are. What \<^verbatim>\<open>create_consumer\<close> does with the object after a failed
  \<^verbatim>\<open>Consumer_init\<close> is the subject of claims C7 and C10.
\<close>

theorem Consumer_init_leaves_validation_to_client:
  "PyArg_ParseTuple lib args = Some (b, g) \<longrightarrow>
     (fst (rd_kafka_conf_set lib ''bootstrap.servers'' b) \<noteq> RD_KAFKA_CONF_OK \<longrightarrow>
        Consumer_init lib self args w =
          (- 1, self,
           w\<lparr>trace := trace w @
              [Rd_kafka_conf_new, Rd_kafka_conf_set ''bootstrap.servers'' b,
               PyErr_SetString ''ValueError''
                 (snd (rd_kafka_conf_set lib ''bootstrap.servers'' b))]\<rparr>)) \<and>
     (fst (rd_kafka_conf_set lib ''bootstrap.servers'' b) = RD_KAFKA_CONF_OK \<and>
      fst (rd_kafka_conf_set lib ''group.id'' g) \<noteq> RD_KAFKA_CONF_OK \<longrightarrow>
        Consumer_init lib self args w =
          (- 1, self,
           w\<lparr>trace := trace w @
              [Rd_kafka_conf_new, Rd_kafka_conf_set ''bootstrap.servers'' b,
               Rd_kafka_conf_set ''group.id'' g,
               PyErr_SetString ''ValueError'' (snd (rd_kafka_conf_set lib ''group.id'' g))]\<rparr>)) \<and>
     (fst (rd_kafka_conf_set lib ''bootstrap.servers'' b) = RD_KAFKA_CONF_OK \<and>
      fst (rd_kafka_conf_set lib ''group.id'' g) = RD_KAFKA_CONF_OK \<and>
      fst (rd_kafka_conf_set lib ''enable.auto.commit'' ''false'') = RD_KAFKA_CONF_OK \<and>
      fst (rd_kafka_new lib [(''bootstrap.servers'', b), (''group.id'', g),
                             (''enable.auto.commit'', ''false'')]) \<noteq> NULL \<longrightarrow>
        Consumer_init lib self args w =
          (0,
           self\<lparr>rk := fst (rd_kafka_new lib [(''bootstrap.servers'', b), (''group.id'', g),
                                              (''enable.auto.commit'', ''false'')]),
                message_queue := (message_queue self)\<lparr>head := NULL, tail := NULL, size_q := 0\<rparr>,
                run_poller := 1, poller_thread := pthread_create lib\<rparr>,
           w\<lparr>trace := trace w @
              [Rd_kafka_conf_new, Rd_kafka_conf_set ''bootstrap.servers'' b,
               Rd_kafka_conf_set ''group.id'' g,
               Rd_kafka_conf_set ''enable.auto.commit'' ''false'',
               Rd_kafka_new [(''bootstrap.servers'', b), (''group.id'', g),
                             (''enable.auto.commit'', ''false'')]
                 (fst (rd_kafka_new lib [(''bootstrap.servers'', b), (''group.id'', g),
                                         (''enable.auto.commit'', ''false'')])),
               Pthread_mutex_init, Pthread_cond_init, Store_run_poller 1,
               Pthread_create (pthread_create lib)]\<rparr>))"
proof (intro impI conjI)
  assume p: "PyArg_ParseTuple lib args = Some (b, g)"
    and c: "fst (rd_kafka_conf_set lib ''bootstrap.servers'' b) \<noteq> RD_KAFKA_CONF_OK"
  show "Consumer_init lib self args w =
          (- 1, self,
           w\<lparr>trace := trace w @
              [Rd_kafka_conf_new, Rd_kafka_conf_set ''bootstrap.servers'' b,
               PyErr_SetString ''ValueError''
                 (snd (rd_kafka_conf_set lib ''bootstrap.servers'' b))]\<rparr>)"
    by (rule Consumer_init_endpoints_rejected [OF p c])
next
  assume p: "PyArg_ParseTuple lib args = Some (b, g)"
    and c: "fst (rd_kafka_conf_set lib ''bootstrap.servers'' b) = RD_KAFKA_CONF_OK \<and>
      fst (rd_kafka_conf_set lib ''group.id'' g) \<noteq> RD_KAFKA_CONF_OK"
  show "Consumer_init lib self args w =
          (- 1, self,
           w\<lparr>trace := trace w @
              [Rd_kafka_conf_new, Rd_kafka_conf_set ''bootstrap.servers'' b,
               Rd_kafka_conf_set ''group.id'' g,
               PyErr_SetString ''ValueError'' (snd (rd_kafka_conf_set lib ''group.id'' g))]\<rparr>)"
    by (rule Consumer_init_group_rejected [OF p c [THEN conjunct1] c [THEN conjunct2]])
next
  assume p: "PyArg_ParseTuple lib args = Some (b, g)"
    and c: "fst (rd_kafka_conf_set lib ''bootstrap.servers'' b) = RD_KAFKA_CONF_OK \<and>
      fst (rd_kafka_conf_set lib ''group.id'' g) = RD_KAFKA_CONF_OK \<and>
      fst (rd_kafka_conf_set lib ''enable.auto.commit'' ''false'') = RD_KAFKA_CONF_OK \<and>
      fst (rd_kafka_new lib [(''bootstrap.servers'', b), (''group.id'', g),
                             (''enable.auto.commit'', ''false'')]) \<noteq> NULL"
  show "Consumer_init lib self args w =
          (0,
           self\<lparr>rk := fst (rd_kafka_new lib [(''bootstrap.servers'', b), (''group.id'', g),
                                              (''enable.auto.commit'', ''false'')]),
                message_queue := (message_queue self)\<lparr>head := NULL, tail := NULL, size_q := 0\<rparr>,
                run_poller := 1, poller_thread := pthread_create lib\<rparr>,
           w\<lparr>trace := trace w @
              [Rd_kafka_conf_new, Rd_kafka_conf_set ''bootstrap.servers'' b,
               Rd_kafka_conf_set ''group.id'' g,
               Rd_kafka_conf_set ''enable.auto.commit'' ''false'',
               Rd_kafka_new [(''bootstrap.servers'', b), (''group.id'', g),
                             (''enable.auto.commit'', ''false'')]
                 (fst (rd_kafka_new lib [(''bootstrap.servers'', b), (''group.id'', g),
                                         (''enable.auto.commit'', ''false'')])),
               Pthread_mutex_init, Pthread_cond_init, Store_run_poller 1,
               Pthread_create (pthread_create lib)]\<rparr>)"
    by (rule Consumer_init_accepted [OF p c [THEN conjunct1] c [THEN conjunct2, THEN conjunct1]
          c [THEN conjunct2, THEN conjunct2, THEN conjunct1]
          c [THEN conjunct2, THEN conjunct2, THEN conjunct2]])
qed

theorem Consumer_init_leaves_validation_to_client_witness:
  "Consumer_init strict_client uninitialised_object [PyUnicode [], PyUnicode ''g1'']
     \<lparr>nodes = [], trace = []\<rparr> =
     (- 1, uninitialised_object,
      \<lparr>nodes = [],
       trace = [Rd_kafka_conf_new, Rd_kafka_conf_set ''bootstrap.servers'' [],
                PyErr_SetString ''ValueError'' ''empty value'']\<rparr>) \<and>
   Consumer_init strict_client uninitialised_object [PyUnicode ''broker:9092'', PyUnicode []]
     \<lparr>nodes = [], trace = []\<rparr> =
     (- 1, uninitialised_object,
      \<lparr>nodes = [],
       trace = [Rd_kafka_conf_new, Rd_kafka_conf_set ''bootstrap.servers'' ''broker:9092'',
                Rd_kafka_conf_set ''group.id'' [],
                PyErr_SetString ''ValueError'' ''empty value'']\<rparr>) \<and>
   Consumer_init strict_client uninitialised_object
     [PyUnicode ''broker:9092'', PyUnicode ''g1''] \<lparr>nodes = [], trace = []\<rparr> =
     (0,
      \<lparr>rk = 1, poller_thread = 1, run_poller = 1,
       message_queue = \<lparr>head = NULL, tail = NULL, size_q = 0\<rparr>\<rparr>,
      \<lparr>nodes = [],
       trace = [Rd_kafka_conf_new, Rd_kafka_conf_set ''bootstrap.servers'' ''broker:9092'',
                Rd_kafka_conf_set ''group.id'' ''g1'',
                Rd_kafka_conf_set ''enable.auto.commit'' ''false'',
                Rd_kafka_new [(''bootstrap.servers'', ''broker:9092''), (''group.id'', ''g1''),
                              (''enable.auto.commit'', ''false'')] 1,
                Pthread_mutex_init, Pthread_cond_init, Store_run_poller 1,
                Pthread_create 1]\<rparr>)"
proof -
  let ?w = "\<lparr>nodes = [], trace = []\<rparr>"
  have a: "PyArg_ParseTuple strict_client [PyUnicode [], PyUnicode ''g1''] = Some ([], ''g1'')"
    and b: "fst (rd_kafka_conf_set strict_client ''bootstrap.servers'' []) \<noteq> RD_KAFKA_CONF_OK"
    by (simp_all add: scenario_defs)
  have a2: "PyArg_ParseTuple strict_client [PyUnicode ''broker:9092'', PyUnicode []] =
      Some (''broker:9092'', [])"
    and b2: "fst (rd_kafka_conf_set strict_client ''bootstrap.servers'' ''broker:9092'') = RD_KAFKA_CONF_OK \<and>
      fst (rd_kafka_conf_set strict_client ''group.id'' []) \<noteq> RD_KAFKA_CONF_OK"
    by (simp_all add: scenario_defs)
  have c: "PyArg_ParseTuple strict_client [PyUnicode ''broker:9092'', PyUnicode ''g1''] =
      Some (''broker:9092'', ''g1'')"
    and d: "fst (rd_kafka_conf_set strict_client ''bootstrap.servers'' ''broker:9092'') = RD_KAFKA_CONF_OK \<and>
      fst (rd_kafka_conf_set strict_client ''group.id'' ''g1'') = RD_KAFKA_CONF_OK \<and>
      fst (rd_kafka_conf_set strict_client ''enable.auto.commit'' ''false'') = RD_KAFKA_CONF_OK \<and>
      fst (rd_kafka_new strict_client [(''bootstrap.servers'', ''broker:9092''), (''group.id'', ''g1''),
                             (''enable.auto.commit'', ''false'')]) \<noteq> NULL"
    by (simp_all add: scenario_defs)
  have v: "snd (rd_kafka_conf_set strict_client ''bootstrap.servers'' []) = ''empty value''"
    "snd (rd_kafka_conf_set strict_client ''group.id'' []) = ''empty value''"
    "fst (rd_kafka_new strict_client [(''bootstrap.servers'', ''broker:9092''), (''group.id'', ''g1''),
                             (''enable.auto.commit'', ''false'')]) = 1"
    "pthread_create strict_client = 1"
    by (simp_all add: scenario_defs)
  from Consumer_init_leaves_validation_to_client [where lib = strict_client
      and args = "[PyUnicode [], PyUnicode ''g1'']" and b = "[]" and g = "''g1''"
      and self = uninitialised_object and w = ?w] a b
  have 1: "Consumer_init strict_client uninitialised_object [PyUnicode [], PyUnicode ''g1''] ?w =
          (- 1, uninitialised_object,
           ?w\<lparr>trace := trace ?w @
              [Rd_kafka_conf_new, Rd_kafka_conf_set ''bootstrap.servers'' [],
               PyErr_SetString ''ValueError''
                 (snd (rd_kafka_conf_set strict_client ''bootstrap.servers'' []))]\<rparr>)"
    by blast
  from Consumer_init_leaves_validation_to_client [where lib = strict_client
      and args = "[PyUnicode ''broker:9092'', PyUnicode []]" and b = "''broker:9092''" and g = "[]"
      and self = uninitialised_object and w = ?w] a2 b2
  have 2: "Consumer_init strict_client uninitialised_object [PyUnicode ''broker:9092'', PyUnicode []] ?w =
          (- 1, uninitialised_object,
           ?w\<lparr>trace := trace ?w @
              [Rd_kafka_conf_new, Rd_kafka_conf_set ''bootstrap.servers'' ''broker:9092'',
               Rd_kafka_conf_set ''group.id'' [],
               PyErr_SetString ''ValueError'' (snd (rd_kafka_conf_set strict_client ''group.id'' []))]\<rparr>)"
    by blast
  from Consumer_init_leaves_validation_to_client [where lib = strict_client
      and args = "[PyUnicode ''broker:9092'', PyUnicode ''g1'']" and b = "''broker:9092''" and g = "''g1''"
      and self = uninitialised_object and w = ?w] c d
  have 3: "Consumer_init strict_client uninitialised_object [PyUnicode ''broker:9092'', PyUnicode ''g1''] ?w =
          (0,
           uninitialised_object\<lparr>rk := fst (rd_kafka_new strict_client [(''bootstrap.servers'', ''broker:9092''), (''group.id'', ''g1''),
                                              (''enable.auto.commit'', ''false'')]),
                message_queue := (message_queue uninitialised_object)\<lparr>head := NULL, tail := NULL, size_q := 0\<rparr>,
                run_poller := 1, poller_thread := pthread_create strict_client\<rparr>,
           ?w\<lparr>trace := trace ?w @
              [Rd_kafka_conf_new, Rd_kafka_conf_set ''bootstrap.servers'' ''broker:9092'',
               Rd_kafka_conf_set ''group.id'' ''g1'',
               Rd_kafka_conf_set ''enable.auto.commit'' ''false'',
               Rd_kafka_new [(''bootstrap.servers'', ''broker:9092''), (''group.id'', ''g1''),
                             (''enable.auto.commit'', ''false'')]
                 (fst (rd_kafka_new strict_client [(''bootstrap.servers'', ''broker:9092''), (''group.id'', ''g1''),
                                         (''enable.auto.commit'', ''false'')])),
               Pthread_mutex_init, Pthread_cond_init, Store_run_poller 1,
               Pthread_create (pthread_create strict_client)]\<rparr>)"
    by blast
  from 1 2 3 show ?thesis
    unfolding v by (simp add: uninitialised_object_def)
qed

text \<open>
  The claim as the specification states it fails with a client that accepts an empty
  endpoints string: \<^verbatim>\<open>Consumer_init\<close> succeeds and the poller thread is started.
\<close>

theorem Consumer_init_accepts_empty_endpoints:
  "Consumer_init accepting_client uninitialised_object [PyUnicode [], PyUnicode ''g1'']
     \<lparr>nodes = [], trace = []\<rparr> =
   (0,
    \<lparr>rk = 1, poller_thread = 1, run_poller = 1,
     message_queue = \<lparr>head = NULL, tail = NULL, size_q = 0\<rparr>\<rparr>,
    \<lparr>nodes = [],
     trace = [Rd_kafka_conf_new, Rd_kafka_conf_set ''bootstrap.servers'' [],
              Rd_kafka_conf_set ''group.id'' ''g1'',
              Rd_kafka_conf_set ''enable.auto.commit'' ''false'',
              Rd_kafka_new [(''bootstrap.servers'', []), (''group.id'', ''g1''),
                            (''enable.auto.commit'', ''false'')] 1,
              Pthread_mutex_init, Pthread_cond_init, Store_run_poller 1, Pthread_create 1]\<rparr>)"
  by (simp add: Consumer_init_def message_queue_init_def scenario_defs log_def)

subsection \<open>The operations the consumer exposes\<close>

lemma traversal_pop:
  assumes "traversal (nodes w) (Suc n) (head q) = Some ((a, m) # xs)"
  shows "\<exists>q'. message_queue_pop q w =
           Inr (m, q', w\<lparr>nodes := AList.delete a (nodes w),
                        trace := trace w @ [Pthread_mutex_lock, Pthread_mutex_unlock]\<rparr>) \<and>
         traversal (AList.delete a (nodes w)) n (head q') = Some xs"
proof -
  let ?h = "map_of (nodes w)"
  from assms have cl: "chain ?h (head q) ((a, m) # xs) \<and> length ((a, m) # xs) = Suc n"
    by (simp only: traversal_chain)
  from cl have c: "chain ?h (head q) ((a, m) # xs)" by (rule conjunct1)
  from cl have l: "length xs = n" by simp
  from c obtain nd :: MessageNode where nd: "head q = a" "a \<noteq> NULL" "?h a = Some nd" "message nd = m"
    "chain ?h (next_node nd) xs"
    by (auto split: option.splits)
  from chain_distinct [OF c] have "a \<notin> fst ` set xs" by simp
  with nd(5) have "chain (?h(a := None)) (next_node nd) xs" by (simp add: chain_upd)
  with l have t: "traversal (AList.delete a (nodes w)) n (next_node nd) = Some xs"
    by (simp add: traversal_chain AList.delete_conv')
  from nd t show ?thesis
    by (auto simp: message_queue_pop_def Let_def log_def free_def)
qed

text \<open>
  Claim C2, as the code has it. The consumer type has no methods of its own, so none
  named \<^verbatim>\<open>receive\<close>. The module that \<^verbatim>\<open>PyInit__core\<close> returns has the function
  \<^verbatim>\<open>create_consumer\<close> and, when \<^verbatim>\<open>PyModule_AddObject\<close> succeeded, the type under the name
  \<^verbatim>\<open>Consumer\<close>, and nothing else: no member named \<^verbatim>\<open>receive\<close> either. The operation that a
  \<^verbatim>\<open>receive\<close> would delegate to, \<^verbatim>\<open>message_queue_pop\<close>, waits while the queue is empty, and
  on a queue that holds a message returns the message at the head: the node is freed
  and the message is not destroyed, it passes to the caller.
\<close>

theorem consumer_exposes_no_receive:
  "tp_methods ConsumerType = [] \<and>
   map_of (tp_methods ConsumerType) ''receive'' = None \<and>
   PyInit__core True True True =
     Some [(''create_consumer'', Function create_consumer_ptr), (''Consumer'', Type ConsumerType)] \<and>
   PyInit__core True True False = Some [(''create_consumer'', Function create_consumer_ptr)] \<and>
   (PyInit__core type_ready module_created object_added = Some members \<longrightarrow>
      map_of members ''receive'' = None) \<and>
   (head q = NULL \<longrightarrow>
      message_queue_pop q w = Inl (Blocked, log Pthread_cond_wait (log Pthread_mutex_lock w))) \<and>
   (traversal (nodes w) (Suc n) (head q) = Some ((a, m) # xs) \<longrightarrow>
      (\<exists>q'. message_queue_pop q w =
           Inr (m, q', w\<lparr>nodes := AList.delete a (nodes w),
                        trace := trace w @ [Pthread_mutex_lock, Pthread_mutex_unlock]\<rparr>) \<and>
         traversal (AList.delete a (nodes w)) n (head q') = Some xs))"
proof -
  have m: "map_of members ''receive'' = None"
    if "PyInit__core type_ready module_created object_added = Some members"
    using that by (auto simp: PyInit__core_def core_methods_def Let_def split: if_splits)
  show ?thesis
    using traversal_pop [of w n q a m xs] m
    by (simp add: ConsumerType_def PyInit__core_def core_methods_def message_queue_pop_def Let_def)
qed

theorem consumer_exposes_no_receive_witness:
  "PyInit__core True True True =
     Some [(''create_consumer'', Function create_consumer_ptr), (''Consumer'', Type ConsumerType)] \<and>
   map_of [(''create_consumer'', Function create_consumer_ptr), (''Consumer'', Type ConsumerType)]
     ''receive'' = None \<and>
   message_queue_pop \<lparr>head = NULL, tail = NULL, size_q = 0\<rparr> \<lparr>nodes = [], trace = []\<rparr> =
     Inl (Blocked, \<lparr>nodes = [], trace = [Pthread_mutex_lock, Pthread_cond_wait]\<rparr>) \<and>
   (\<exists>q'. message_queue_pop \<lparr>head = 1, tail = 1, size_q = 1\<rparr>
        \<lparr>nodes = [(1, \<lparr>message = \<lparr>err = 0, payload = ''A''\<rparr>, next_node = NULL\<rparr>)], trace = []\<rparr> =
      Inr (\<lparr>err = 0, payload = ''A''\<rparr>, q',
           \<lparr>nodes = [], trace = [Pthread_mutex_lock, Pthread_mutex_unlock]\<rparr>))"
proof -
  let ?members = "[(''create_consumer'', Function create_consumer_ptr), (''Consumer'', Type ConsumerType)]"
  have t: "traversal (nodes \<lparr>nodes = [(1, \<lparr>message = \<lparr>err = 0, payload = ''A''\<rparr>, next_node = NULL\<rparr>)], trace = []\<rparr>)
      (Suc 0) (head \<lparr>head = 1, tail = 1, size_q = 1\<rparr>) = Some ((1, \<lparr>err = 0, payload = ''A''\<rparr>) # [])"
    by simp
  have h: "head \<lparr>head = NULL, tail = NULL, size_q = 0\<rparr> = NULL" by simp
  have i: "PyInit__core True True True = Some ?members"
    by (simp add: PyInit__core_def core_methods_def)
  from consumer_exposes_no_receive [where type_ready = True and module_created = True and object_added = True
      and members = ?members] i
  have 0: "map_of ?members ''receive'' = None" by blast
  from consumer_exposes_no_receive [where q = "\<lparr>head = NULL, tail = NULL, size_q = 0\<rparr>"
      and w = "\<lparr>nodes = [], trace = []\<rparr>"] h
  have 1: "message_queue_pop \<lparr>head = NULL, tail = NULL, size_q = 0\<rparr> \<lparr>nodes = [], trace = []\<rparr> =
     Inl (Blocked, log Pthread_cond_wait (log Pthread_mutex_lock \<lparr>nodes = [], trace = []\<rparr>))"
    by blast
  from consumer_exposes_no_receive [where q = "\<lparr>head = 1, tail = 1, size_q = 1\<rparr>"
      and w = "\<lparr>nodes = [(1, \<lparr>message = \<lparr>err = 0, payload = ''A''\<rparr>, next_node = NULL\<rparr>)], trace = []\<rparr>"
      and n = 0 and a = 1 and m = "\<lparr>err = 0, payload = ''A''\<rparr>" and xs = "[]"] t
  have 2: "\<exists>q'. message_queue_pop \<lparr>head = 1, tail = 1, size_q = 1\<rparr>
        \<lparr>nodes = [(1, \<lparr>message = \<lparr>err = 0, payload = ''A''\<rparr>, next_node = NULL\<rparr>)], trace = []\<rparr> =
      Inr (\<lparr>err = 0, payload = ''A''\<rparr>, q',
           \<lparr>nodes = [(1, \<lparr>message = \<lparr>err = 0, payload = ''A''\<rparr>, next_node = NULL\<rparr>)], trace = []\<rparr>
           \<lparr>nodes := AList.delete 1 (nodes \<lparr>nodes = [(1, \<lparr>message = \<lparr>err = 0, payload = ''A''\<rparr>, next_node = NULL\<rparr>)], trace = []\<rparr>),
            trace := trace \<lparr>nodes = [(1, \<lparr>message = \<lparr>err = 0, payload = ''A''\<rparr>, next_node = NULL\<rparr>)], trace = []\<rparr> @ [Pthread_mutex_lock, Pthread_mutex_unlock]\<rparr>)"
    by blast
  from i 0 1 2 show ?thesis by (simp add: log_def)
qed

text \<open>
  The claim as the specification states it fails: looking up \<^verbatim>\<open>receive\<close> among the
  methods of the consumer type and among the members of the module finds nothing.
\<close>

theorem consumer_type_has_no_methods:
  "tp_methods ConsumerType = [] \<and> map_of (tp_methods ConsumerType) ''receive'' = None \<and>
   PyInit__core True True True =
     Some [(''create_consumer'', Function create_consumer_ptr), (''Consumer'', Type ConsumerType)] \<and>
   map_of [(''create_consumer'', Function create_consumer_ptr), (''Consumer'', Type ConsumerType)]
     ''receive'' = None"
  by (simp add: ConsumerType_def PyInit__core_def core_methods_def)

subsection \<open>The poller loop absorbs errors\<close>

lemma destroyed_messages_append:
  "destroyed_messages (es @ fs) = destroyed_messages es @ destroyed_messages fs"
  by (induction es rule: destroyed_messages.induct) simp_all

lemma poll_calls_append: "poll_calls (es @ fs) = poll_calls es @ poll_calls fs"
  by (induction es rule: poll_calls.induct) simp_all

lemma push_trace:
  "message_queue_push q m w = Inr (q', w') \<Longrightarrow>
   trace w' = trace w @ [Pthread_mutex_lock, Pthread_cond_signal, Pthread_mutex_unlock]"
  by (auto simp: message_queue_push_def Let_def log_def store_def split: if_splits option.splits)

lemma poller_iteration_qrep:
  assumes "qrep (message_queue self) w xs"
  shows "\<exists>self' w' ys es. poller_iteration r self w = Inr (self', w') \<and>
           run_poller self' = run_poller self \<and> rk self' = rk self \<and>
           qrep (message_queue self') w' (xs @ ys) \<and> map snd ys = received [r] \<and>
           trace w' = trace w @ es \<and> destroyed_messages es = error_records [r] \<and>
           poll_calls es = [(rk self, 1000)]"
proof (cases r)
  case None
  with assms show ?thesis
    by (auto simp: poller_iteration_def Let_def log_def qrep_def)
next
  case (Some m)
  show ?thesis
  proof (cases "err m = 0")
    case False
    with Some assms show ?thesis
      by (auto simp: poller_iteration_def Let_def log_def qrep_def)
  next
    case True
    let ?w1 = "log (Rd_kafka_consumer_poll (rk self) 1000) w"
    from assms have "qrep (message_queue self) ?w1 xs" by (simp add: qrep_def log_def)
    from qrep_push [OF this, of m] obtain q' w' where
      p: "message_queue_push (message_queue self) m ?w1 = Inr (q', w')"
      and q: "qrep q' w' (xs @ [(malloc ?w1, m)])" by blast
    from push_trace [OF p] have t: "trace w' = trace w @ [Rd_kafka_consumer_poll (rk self) 1000,
        Pthread_mutex_lock, Pthread_cond_signal, Pthread_mutex_unlock]"
      by (simp add: log_def)
    have "poller_iteration r self w = Inr (self\<lparr>message_queue := q'\<rparr>, w')"
      using Some True p by (simp add: poller_iteration_def Let_def)
    with q t Some True show ?thesis
      by (intro exI [of _ "self\<lparr>message_queue := q'\<rparr>"] exI [of _ w']
          exI [of _ "[(malloc ?w1, m)]"]
          exI [of _ "[Rd_kafka_consumer_poll (rk self) 1000,
        Pthread_mutex_lock, Pthread_cond_signal, Pthread_mutex_unlock]"]) simp
  qed
qed

lemma received_append: "received (rs @ ss) = received rs @ received ss"
  by (induction rs rule: received.induct) simp_all

lemma error_records_append: "error_records (rs @ ss) = error_records rs @ error_records ss"
  by (induction rs rule: error_records.induct) simp_all

lemma poller_loop_qrep:
  assumes "run_poller self \<noteq> 0" and "qrep (message_queue self) w xs"
  shows "\<exists>self' w' ys es.
           poller_thread_func (map (\<lambda>r. (r, False)) rs) self w = Inr (False, self', w') \<and>
           run_poller self' = run_poller self \<and> rk self' = rk self \<and>
           qrep (message_queue self') w' (xs @ ys) \<and> map snd ys = received rs \<and>
           trace w' = trace w @ es \<and> destroyed_messages es = error_records rs \<and>
           poll_calls es = replicate (length rs) (rk self, 1000)"
  using assms
proof (induction rs arbitrary: self w xs)
  case Nil
  then show ?case by simp
next
  case (Cons r rs)
  from poller_iteration_qrep [OF Cons.prems(2), of r] obtain self1 w1 ys1 es1 where
    1: "poller_iteration r self w = Inr (self1, w1)" "run_poller self1 = run_poller self"
      "rk self1 = rk self" "qrep (message_queue self1) w1 (xs @ ys1)" "map snd ys1 = received [r]"
      "trace w1 = trace w @ es1" "destroyed_messages es1 = error_records [r]"
      "poll_calls es1 = [(rk self, 1000)]" by blast
  from 1(2) Cons.prems(1) have "run_poller self1 \<noteq> 0" by simp
  from Cons.IH [OF this 1(4)] obtain self' w' ys es where
    2: "poller_thread_func (map (\<lambda>r. (r, False)) rs) self1 w1 = Inr (False, self', w')"
      "run_poller self' = run_poller self1" "rk self' = rk self1"
      "qrep (message_queue self') w' ((xs @ ys1) @ ys)" "map snd ys = received rs"
      "trace w' = trace w1 @ es" "destroyed_messages es = error_records rs"
      "poll_calls es = replicate (length rs) (rk self1, 1000)" by blast
  have r: "received (r # rs) = received [r] @ received rs"
    "error_records (r # rs) = error_records [r] @ error_records rs"
    using received_append [of "[r]" rs] error_records_append [of "[r]" rs] by simp_all
  from Cons.prems(1) 1(1) 2(1)
  have "poller_thread_func (map (\<lambda>r. (r, False)) (r # rs)) self w = Inr (False, self', w')"
    by simp
  with 1 2 r show ?case
    by (intro exI [of _ self'] exI [of _ w'] exI [of _ "ys1 @ ys"] exI [of _ "es1 @ es"])
       (simp add: destroyed_messages_append poll_calls_append)
qed

lemma poller_returns_cleared:
  "poller_thread_func polls self w = Inr (True, self', w') \<Longrightarrow>
   run_poller self' = 0 \<and> (run_poller self = 0 \<or> True \<in> snd ` set polls)"
proof (induction polls self w rule: poller_thread_func.induct)
  case (1 self w)
  then show ?case by (auto split: if_splits)
next
  case (2 polled cleared rest self w)
  show ?case
  proof (cases "run_poller self = 0")
    case True
    with "2.prems" show ?thesis by simp
  next
    case False
    with "2.prems" obtain self1 w1 where
      i: "poller_iteration polled self w = Inr (self1, w1)"
      and r: "poller_thread_func rest (if cleared then self1\<lparr>run_poller := 0\<rparr> else self1) w1 =
              Inr (True, self', w')"
      by (auto split: sum.splits)
    from i have k: "run_poller self1 = run_poller self"
      by (auto simp: poller_iteration_def Let_def split: option.splits if_splits sum.splits)
    from "2.IH" [OF False i refl r] k False show ?thesis
      by (cases cleared) (auto simp: image_iff)
  qed
qed

lemma received_ok: "m \<in> set (received rs) \<Longrightarrow> err m = 0"
  by (induction rs rule: received.induct) (auto split: if_splits)

text \<open>
  Claim C4. Let the loop run on a queue that satisfies its invariant, with
  \<^verbatim>\<open>run_poller\<close> set and never cleared, through any sequence of poll results. Then the
  loop is still running after the last of them; it has polled once per result with the
  timeout 1000; it has destroyed exactly the error records, in order; and the pops that
  follow return the messages that were queued before and then the messages received
  without error, in order, none of which carries an error. Whenever the function has
  returned, it has read \<^verbatim>\<open>run_poller\<close> as 0: the flag was clear at the start or was
  cleared during the run.
\<close>

theorem poller_absorbs_errors:
  "(run_poller self \<noteq> 0 \<and> queue_invariant (message_queue self) w \<and>
    traversal (nodes w) (nat (sint (size_q (message_queue self)))) (head (message_queue self)) = Some xs \<longrightarrow>
      (\<exists>self' w' es.
         poller_thread_func (map (\<lambda>r. (r, False)) rs) self w = Inr (False, self', w') \<and>
         trace w' = trace w @ es \<and>
         destroyed_messages es = error_records rs \<and>
         poll_calls es = replicate (length rs) (rk self, 1000) \<and>
         (\<exists>q2 w2. run_ops (replicate (length xs + length (received rs)) Pop) (message_queue self') w' =
            Inr (map snd xs @ received rs, q2, w2)))) \<and>
   (\<forall>m \<in> set (received rs). err m = 0) \<and>
   (poller_thread_func polls self w = Inr (True, self1, w1) \<longrightarrow>
      run_poller self1 = 0 \<and> (run_poller self = 0 \<or> True \<in> snd ` set polls))"
proof (intro conjI impI ballI)
  assume a: "run_poller self \<noteq> 0 \<and> queue_invariant (message_queue self) w \<and>
    traversal (nodes w) (nat (sint (size_q (message_queue self)))) (head (message_queue self)) = Some xs"
  then have rp: "run_poller self \<noteq> 0" and qi: "queue_invariant (message_queue self) w"
    and tr: "traversal (nodes w) (nat (sint (size_q (message_queue self)))) (head (message_queue self)) = Some xs"
    by blast+
  from invariant_qrep [OF qi] obtain xs' where x: "qrep (message_queue self) w xs'" by blast
  from tr have "chain (map_of (nodes w)) (head (message_queue self)) xs"
    by (simp only: traversal_chain)
  moreover from x have "chain (map_of (nodes w)) (head (message_queue self)) xs'"
    by (simp add: qrep_def)
  ultimately have "xs' = xs" using chain_fun by blast
  with x have q: "qrep (message_queue self) w xs" by simp
  from poller_loop_qrep [OF rp q, of rs] obtain self' w' ys es where
    l: "poller_thread_func (map (\<lambda>r. (r, False)) rs) self w = Inr (False, self', w')"
      "qrep (message_queue self') w' (xs @ ys)" "map snd ys = received rs"
      "trace w' = trace w @ es" "destroyed_messages es = error_records rs"
      "poll_calls es = replicate (length rs) (rk self, 1000)" by blast
  from run_ops_pops [OF l(2)] obtain q2 w2 where
    "run_ops (replicate (length (xs @ ys)) Pop) (message_queue self') w' = Inr (map snd (xs @ ys), q2, w2)"
    by blast
  moreover from l(3) have "length ys = length (received rs)" by (metis length_map)
  ultimately have "run_ops (replicate (length xs + length (received rs)) Pop) (message_queue self') w' =
            Inr (map snd xs @ received rs, q2, w2)" using l(3) by simp
  with l show "\<exists>self' w' es.
         poller_thread_func (map (\<lambda>r. (r, False)) rs) self w = Inr (False, self', w') \<and>
         trace w' = trace w @ es \<and>
         destroyed_messages es = error_records rs \<and>
         poll_calls es = replicate (length rs) (rk self, 1000) \<and>
         (\<exists>q2 w2. run_ops (replicate (length xs + length (received rs)) Pop) (message_queue self') w' =
            Inr (map snd xs @ received rs, q2, w2))" by blast
next
  fix m assume "m \<in> set (received rs)"
  then show "err m = 0" by (rule received_ok)
next
  assume "poller_thread_func polls self w = Inr (True, self1, w1)"
  from poller_returns_cleared [OF this]
  show "run_poller self1 = 0" and "run_poller self = 0 \<or> True \<in> snd ` set polls" by blast+
qed

theorem poller_absorbs_errors_witness:
  "(\<exists>self' w' es.
      poller_thread_func
        [(Some \<lparr>err = - 185, payload = ''timed out''\<rparr>, False),
         (Some \<lparr>err = 0, payload = ''A''\<rparr>, False), (None, False),
         (Some \<lparr>err = 0, payload = ''B''\<rparr>, False)]
        \<lparr>rk = 1, poller_thread = 1, run_poller = 1,
         message_queue = \<lparr>head = NULL, tail = NULL, size_q = 0\<rparr>\<rparr>
        \<lparr>nodes = [], trace = []\<rparr> = Inr (False, self', w') \<and>
      trace w' = es \<and>
      destroyed_messages es = [\<lparr>err = - 185, payload = ''timed out''\<rparr>] \<and>
      poll_calls es = [(1, 1000), (1, 1000), (1, 1000), (1, 1000)] \<and>
      (\<exists>q2 w2. run_ops [Pop, Pop] (message_queue self') w' =
         Inr ([\<lparr>err = 0, payload = ''A''\<rparr>, \<lparr>err = 0, payload = ''B''\<rparr>], q2, w2))) \<and>
   poller_thread_func [(None, True)]
     \<lparr>rk = 1, poller_thread = 1, run_poller = 1,
      message_queue = \<lparr>head = NULL, tail = NULL, size_q = 0\<rparr>\<rparr>
     \<lparr>nodes = [], trace = []\<rparr> =
     Inr (True,
          \<lparr>rk = 1, poller_thread = 1, run_poller = 0,
           message_queue = \<lparr>head = NULL, tail = NULL, size_q = 0\<rparr>\<rparr>,
          \<lparr>nodes = [], trace = [Rd_kafka_consumer_poll 1 1000]\<rparr>)"
proof -
  let ?self = "\<lparr>rk = 1, poller_thread = 1, run_poller = 1,
         message_queue = \<lparr>head = NULL, tail = NULL, size_q = 0\<rparr>\<rparr>"
  let ?w = "\<lparr>nodes = [], trace = []\<rparr>"
  let ?rs = "[Some \<lparr>err = - 185, payload = ''timed out''\<rparr>, Some \<lparr>err = 0, payload = ''A''\<rparr>,
              None, Some \<lparr>err = 0, payload = ''B''\<rparr>]"
  have h: "run_poller ?self \<noteq> 0 \<and> queue_invariant (message_queue ?self) ?w \<and>
      traversal (nodes ?w) (nat (sint (size_q (message_queue ?self)))) (head (message_queue ?self)) = Some []"
    by (simp add: queue_invariant_def)
  have p: "poller_thread_func [(None, True)] ?self ?w =
     Inr (True,
          \<lparr>rk = 1, poller_thread = 1, run_poller = 0,
           message_queue = \<lparr>head = NULL, tail = NULL, size_q = 0\<rparr>\<rparr>,
          \<lparr>nodes = [], trace = [Rd_kafka_consumer_poll 1 1000]\<rparr>)"
    by (simp add: poller_iteration_def log_def)
  from poller_absorbs_errors [where self = ?self and w = ?w and xs = "[]" and rs = ?rs
      and polls = "[(None, True)]"] h
  have "\<exists>self' w' es.
         poller_thread_func (map (\<lambda>r. (r, False)) ?rs) ?self ?w = Inr (False, self', w') \<and>
         trace w' = trace ?w @ es \<and>
         destroyed_messages es = error_records ?rs \<and>
         poll_calls es = replicate (length ?rs) (rk ?self, 1000) \<and>
         (\<exists>q2 w2. run_ops (replicate (length ([] :: (nat \<times> rd_kafka_message_t) list) + length (received ?rs)) Pop) (message_queue self') w' =
            Inr (map snd ([] :: (nat \<times> rd_kafka_message_t) list) @ received ?rs, q2, w2))"
    by blast
  then have "\<exists>self' w' es.
      poller_thread_func
        [(Some \<lparr>err = - 185, payload = ''timed out''\<rparr>, False),
         (Some \<lparr>err = 0, payload = ''A''\<rparr>, False), (None, False),
         (Some \<lparr>err = 0, payload = ''B''\<rparr>, False)] ?self ?w = Inr (False, self', w') \<and>
      trace w' = es \<and>
      destroyed_messages es = [\<lparr>err = - 185, payload = ''timed out''\<rparr>] \<and>
      poll_calls es = [(1, 1000), (1, 1000), (1, 1000), (1, 1000)] \<and>
      (\<exists>q2 w2. run_ops [Pop, Pop] (message_queue self') w' =
         Inr ([\<lparr>err = 0, payload = ''A''\<rparr>, \<lparr>err = 0, payload = ''B''\<rparr>], q2, w2))"
    by (simp add: numeral_eq_Suc)
  with p show ?thesis by blast
qed

section \<open>Properties of the teardown\<close>

text \<open>
  On an object whose thread is joinable and whose handle is live, as after a successful
  \<^verbatim>\<open>Consumer_init\<close>, the statements taken one by one are \<^verbatim>\<open>Consumer_dealloc\<close>.
\<close>

lemma Consumer_dealloc_steps:
  "joinable (poller_thread self) (trace w) \<Longrightarrow> live_handle (rk self) (trace w) \<Longrightarrow>
   Consumer_dealloc self w =
     (case dealloc_steps [Dealloc_clear, Dealloc_join, Dealloc_close, Dealloc_destroy,
                          Dealloc_queue, Dealloc_free] self w of
        Inl f \<Rightarrow> Inl f
      | Inr (self1, w1) \<Rightarrow> Inr ((), w1))"
  by (simp add: Consumer_dealloc_def Let_def pthread_join_def rd_kafka_consumer_close_def
      rd_kafka_destroy_def joinable_def live_handle_def log_def handles_created_append
      split: sum.splits prod.splits)

subsection \<open>Steps preserve the invariant\<close>











subsection \<open>What the invariant says about the trace\<close>










end
